theory Spec2Isabelle
  imports Complex_Main
begin

section \<open>Noise reduction: the data model\<close>

text \<open>
  A shallow embedding of \<^verbatim>\<open>src/audacity/NoiseReduction.cpp\<close>.

  Conventions of the embedding.
  \<^item> Values of the C++ types \<^verbatim>\<open>float\<close> and \<^verbatim>\<open>double\<close> are real numbers: every
    arithmetic operation, \<^verbatim>\<open>log\<close>, \<^verbatim>\<open>exp\<close>, \<^verbatim>\<open>cos\<close> and \<^verbatim>\<open>pow\<close> is the exact one,
    rounding, infinities and NaN are not represented.
  \<^item> \<^verbatim>\<open>unsigned\<close> values are natural numbers below \<open>2 ^ 32\<close> and \<^verbatim>\<open>size_t\<close> values
    natural numbers below \<open>2 ^ 64\<close>; where the source computes with them the reduction
    modulo the width is written out. An \<^verbatim>\<open>int\<close> has 32 bits: its values are the
    integers from \<open>- 2 ^ 31\<close> to \<open>2 ^ 31 - 1\<close>, and \<^verbatim>\<open>to_int\<close> is written where the
    source converts a value to an \<^verbatim>\<open>int\<close> or adds to an \<^verbatim>\<open>int\<close> counter. Overflow of an \<^verbatim>\<open>int\<close> is undefined behaviour in
    C++; the model gives it the result of two's-complement arithmetic, and the theorems
    state the range in which the counters do not overflow. \<^verbatim>\<open>sampleCount\<close>, the type of
    \<^verbatim>\<open>mInSampleCount\<close> and \<^verbatim>\<open>mOutStepCount\<close>, is declared outside the source tree (a
    64-bit integer); its values are integers, without a bound.
  \<^item> A \<^verbatim>\<open>FloatVector\<close> is a list of reals, \<^verbatim>\<open>v[i] = x\<close> is \<open>v[i := x]\<close>. Reading or
    writing outside a vector is undefined behaviour in the source; the theorems assume
    the lengths that the constructors establish.
  \<^item> Messages written to \<^verbatim>\<open>std::cerr\<close> are not represented.
\<close>

subsection \<open>Enumerations\<close>

text \<open>The fields holding these values are \<^verbatim>\<open>int\<close>s in the source, so the enumerators
  are integer constants.\<close>

definition DM_MEDIAN :: int where "DM_MEDIAN = 0"
definition DM_SECOND_GREATEST :: int where "DM_SECOND_GREATEST = 1"
definition DM_OLD_METHOD :: int where "DM_OLD_METHOD = 2"
definition DM_DEFAULT_METHOD :: int where "DM_DEFAULT_METHOD = DM_SECOND_GREATEST"

definition WT_RECTANGULAR_HANN :: int where "WT_RECTANGULAR_HANN = 0"
definition WT_HANN_RECTANGULAR :: int where "WT_HANN_RECTANGULAR = 1"
definition WT_HANN_HANN :: int where "WT_HANN_HANN = 2"
definition WT_BLACKMAN_HANN :: int where "WT_BLACKMAN_HANN = 3"
definition WT_HAMMING_RECTANGULAR :: int where "WT_HAMMING_RECTANGULAR = 4"
definition WT_HAMMING_HANN :: int where "WT_HAMMING_HANN = 5"
definition WT_HAMMING_INV_HAMMING :: int where "WT_HAMMING_INV_HAMMING = 6"
definition WT_N_WINDOW_TYPES :: int where "WT_N_WINDOW_TYPES = 7"
definition WT_DEFAULT_WINDOW_TYPES :: int where "WT_DEFAULT_WINDOW_TYPES = WT_HANN_HANN"

definition DEFAULT_WINDOW_SIZE_CHOICE :: int where "DEFAULT_WINDOW_SIZE_CHOICE = 8"
definition DEFAULT_STEPS_PER_WINDOW_CHOICE :: int where "DEFAULT_STEPS_PER_WINDOW_CHOICE = 1"

definition NRC_REDUCE_NOISE :: int where "NRC_REDUCE_NOISE = 0"
definition NRC_ISOLATE_NOISE :: int where "NRC_ISOLATE_NOISE = 1"
definition NRC_LEAVE_RESIDUE :: int where "NRC_LEAVE_RESIDUE = 2"

lemmas enum_defs =
  DM_MEDIAN_def DM_SECOND_GREATEST_def DM_OLD_METHOD_def DM_DEFAULT_METHOD_def
  WT_RECTANGULAR_HANN_def WT_HANN_RECTANGULAR_def WT_HANN_HANN_def WT_BLACKMAN_HANN_def
  WT_HAMMING_RECTANGULAR_def WT_HAMMING_HANN_def WT_HAMMING_INV_HAMMING_def
  WT_N_WINDOW_TYPES_def WT_DEFAULT_WINDOW_TYPES_def
  DEFAULT_WINDOW_SIZE_CHOICE_def DEFAULT_STEPS_PER_WINDOW_CHOICE_def
  NRC_REDUCE_NOISE_def NRC_ISOLATE_NOISE_def NRC_LEAVE_RESIDUE_def

text \<open>\<^verbatim>\<open>const float minSignalTime = 0.05f\<close>, used only by the old method.\<close>

definition minSignalTime :: real where "minSignalTime = 5 / 100"

subsection \<open>The table of window types\<close>

record WindowTypesInfo =
  name :: string
  minSteps :: nat
  inCoefficients :: "real list"
  outCoefficients :: "real list"
  productConstantTerm :: real

definition windowTypesInfo :: "WindowTypesInfo list" where
  "windowTypesInfo =
    [\<lparr>name = ''none, Hann (2.0.6 behavior)'', minSteps = 2,
        inCoefficients = [1, 0, 0], outCoefficients = [5 / 10, - (5 / 10), 0],
        productConstantTerm = 5 / 10\<rparr>,
     \<lparr>name = ''Hann, none'', minSteps = 2,
        inCoefficients = [5 / 10, - (5 / 10), 0], outCoefficients = [1, 0, 0],
        productConstantTerm = 5 / 10\<rparr>,
     \<lparr>name = ''Hann, Hann (default)'', minSteps = 4,
        inCoefficients = [5 / 10, - (5 / 10), 0], outCoefficients = [5 / 10, - (5 / 10), 0],
        productConstantTerm = 375 / 1000\<rparr>,
     \<lparr>name = ''Blackman, Hann'', minSteps = 4,
        inCoefficients = [42 / 100, - (5 / 10), 8 / 100],
        outCoefficients = [5 / 10, - (5 / 10), 0],
        productConstantTerm = 335 / 1000\<rparr>,
     \<lparr>name = ''Hamming, none'', minSteps = 2,
        inCoefficients = [54 / 100, - (46 / 100), 0], outCoefficients = [1, 0, 0],
        productConstantTerm = 54 / 100\<rparr>,
     \<lparr>name = ''Hamming, Hann'', minSteps = 4,
        inCoefficients = [54 / 100, - (46 / 100), 0],
        outCoefficients = [5 / 10, - (5 / 10), 0],
        productConstantTerm = 385 / 1000\<rparr>,
     \<lparr>name = ''Hamming, Reciprocal Hamming'', minSteps = 2,
        inCoefficients = [54 / 100, - (46 / 100), 0], outCoefficients = [1, 0, 0],
        productConstantTerm = 1\<rparr>]"

subsection \<open>Settings\<close>

record Settings =
  mDoProfile :: bool
  mNewSensitivity :: real
  mFreqSmoothingBands :: real
  mNoiseGain :: real
  mAttackTime :: real
  mReleaseTime :: real
  mOldSensitivity :: real
  mNoiseReductionChoice :: int
  mWindowTypes :: int
  mWindowSizeChoice :: int
  mStepsPerWindowChoice :: int
  mMethod :: int

text \<open>\<^verbatim>\<open>1u << n\<close> on a 32-bit \<^verbatim>\<open>unsigned\<close>. The source's shift is undefined unless
  \<open>0 \<le> n < 32\<close>.\<close>

definition shl1u :: "int \<Rightarrow> nat" where
  "shl1u n = 2 ^ nat n mod 2 ^ 32"

definition WindowSize :: "Settings \<Rightarrow> nat" where
  "WindowSize s = shl1u (3 + mWindowSizeChoice s)"

definition StepsPerWindow :: "Settings \<Rightarrow> nat" where
  "StepsPerWindow s = shl1u (1 + mStepsPerWindowChoice s)"

text \<open>The state of a \<^verbatim>\<open>Settings\<close> object after its constructor, which calls
  \<^verbatim>\<open>PrefsIO(true)\<close>: the defaults of the tables (no preference is read in this
  repository, and \<^verbatim>\<open>mNoiseReductionChoice\<close> is left as it was: the parameter).\<close>

definition PrefsIO_read :: "int \<Rightarrow> Settings" where
  "PrefsIO_read choice =
    \<lparr>mDoProfile = True, mNewSensitivity = 6, mFreqSmoothingBands = 3, mNoiseGain = 12,
     mAttackTime = 2 / 100, mReleaseTime = 10 / 100, mOldSensitivity = 0,
     mNoiseReductionChoice = choice,
     mWindowTypes = WT_DEFAULT_WINDOW_TYPES,
     mWindowSizeChoice = DEFAULT_WINDOW_SIZE_CHOICE,
     mStepsPerWindowChoice = DEFAULT_STEPS_PER_WINDOW_CHOICE,
     mMethod = (if DM_DEFAULT_METHOD = DM_OLD_METHOD then DM_DEFAULT_METHOD
                else DM_DEFAULT_METHOD)\<rparr>"

text \<open>\<^verbatim>\<open>Settings::Validate\<close>: \<open>False\<close> is the rejection. Its only input is the
  settings object (the effect pointer is not used).\<close>

definition Validate :: "Settings \<Rightarrow> bool" where
  "Validate s =
    (if StepsPerWindow s < minSteps (windowTypesInfo ! nat (mWindowTypes s)) then False
     else if StepsPerWindow s > WindowSize s then False
     else if mMethod s = DM_MEDIAN \<and> StepsPerWindow s > 4 then False
     else True)"

subsection \<open>Statistics\<close>

text \<open>\<^verbatim>\<open>to_int\<close> is the conversion of an integer value to a 32-bit \<^verbatim>\<open>int\<close>: the
  value modulo \<open>2 ^ 32\<close> in the range from \<open>- 2 ^ 31\<close> to \<open>2 ^ 31 - 1\<close>.\<close>

definition to_int :: "int \<Rightarrow> int" where
  "to_int i = (i + 2 ^ 31) mod 2 ^ 32 - 2 ^ 31"

text \<open>The two counters \<^verbatim>\<open>mTotalWindows\<close> and \<^verbatim>\<open>mTrackWindows\<close> are \<^verbatim>\<open>int\<close>s.\<close>

record Statistics =
  mRate :: real
  mWindowSize :: nat
  mWindowTypes :: int
  mTotalWindows :: int
  mTrackWindows :: int
  mSums :: "real list"
  mMeans :: "real list"

text \<open>The constructor: both vectors are value-initialised, that is, zero.\<close>

definition Statistics_Statistics :: "nat \<Rightarrow> real \<Rightarrow> int \<Rightarrow> Statistics" where
  "Statistics_Statistics spectrumSize rate windowTypes =
    \<lparr>mRate = rate, mWindowSize = (spectrumSize - 1) * 2, mWindowTypes = windowTypes,
     mTotalWindows = 0, mTrackWindows = 0,
     mSums = replicate spectrumSize 0, mMeans = replicate spectrumSize 0\<rparr>"

subsection \<open>The worker\<close>

text \<open>The FFT of \<^verbatim>\<open>RealFFTf.h\<close> is not part of the source tree. The handle is a
  parameter of the model: the table \<^verbatim>\<open>BitReversed\<close> and the two in-place transforms,
  as functions from the buffer to the transformed buffer.\<close>

record FFTParam =
  BitReversed :: "int list"
  RealFFTf :: "real list \<Rightarrow> real list"
  InverseRealFFTf :: "real list \<Rightarrow> real list"

record Record =
  mSpectrums :: "real list"
  mGains :: "real list"
  mRealFFTs :: "real list"
  mImagFFTs :: "real list"

definition Record_Record :: "nat \<Rightarrow> Record" where
  "Record_Record spectrumSize =
    \<lparr>mSpectrums = replicate spectrumSize 0, mGains = replicate spectrumSize 0,
     mRealFFTs = replicate (spectrumSize - 1) 0, mImagFFTs = replicate (spectrumSize - 1) 0\<rparr>"

record Worker =
  mDoProfile :: bool
  mSampleRate :: real
  mWindowSize :: nat
  hFFT :: FFTParam
  mFFTBuffer :: "real list"
  mInWaveBuffer :: "real list"
  mOutOverlapBuffer :: "real list"
  mInWindow :: "real list"
  mOutWindow :: "real list"
  mSpectrumSize :: nat
  mFreqSmoothingScratch :: "real list"
  mFreqSmoothingBins :: nat
  mBinLow :: int
  mBinHigh :: int
  mNoiseReductionChoice :: int
  mStepsPerWindow :: nat
  mStepSize :: nat
  mMethod :: int
  mNewSensitivity :: real
  mInSampleCount :: int
  mOutStepCount :: int
  mInWavePos :: int
  mOneBlockAttack :: real
  mOneBlockRelease :: real
  mNoiseAttenFactor :: real
  mOldSensitivityFactor :: real
  mNWindowsToExamine :: nat
  mCenter :: nat
  mHistoryLen :: nat
  mQueue :: "Record list"

text \<open>Modelled from the spec: the macro \<^verbatim>\<open>DB_TO_LINEAR\<close> comes from \<^verbatim>\<open>Audacity.h\<close>,
  which is not in the source tree. It turns decibels into a factor on amplitudes
  (``Applies to amplitudes, divide by 20''): ten to the power \<open>x / 20\<close>.\<close>

definition DB_TO_LINEAR :: "real \<Rightarrow> real" where
  "DB_TO_LINEAR x = 10 powr (x / 20)"

text \<open>The conversion \<^verbatim>\<open>(int) x\<close> of a \<^verbatim>\<open>double\<close> truncates towards zero (and is
  undefined when the result does not fit an \<^verbatim>\<open>int\<close>). \<^verbatim>\<open>to_unsigned\<close> and
  \<^verbatim>\<open>to_size_t\<close> are the conversions of an \<^verbatim>\<open>int\<close> to the unsigned types.\<close>

definition cast_int :: "real \<Rightarrow> int" where
  "cast_int x = (if 0 \<le> x then \<lfloor>x\<rfloor> else \<lceil>x\<rceil>)"

definition to_unsigned :: "int \<Rightarrow> nat" where
  "to_unsigned i = nat (i mod 2 ^ 32)"

definition to_size_t :: "int \<Rightarrow> nat" where
  "to_size_t i = nat (i mod 2 ^ 64)"

text \<open>The locals of the constructor \<^verbatim>\<open>Worker::Worker\<close>, as functions of its
  arguments.\<close>

definition ctor_mStepSize :: "Settings \<Rightarrow> nat" where
  "ctor_mStepSize s = WindowSize s div StepsPerWindow s"

definition noiseGain :: "Settings \<Rightarrow> real" where
  "noiseGain s = - mNoiseGain s"

definition nAttackBlocks :: "Settings \<Rightarrow> real \<Rightarrow> nat" where
  "nAttackBlocks s sampleRate =
    to_unsigned (1 + cast_int (mAttackTime s * sampleRate / real (ctor_mStepSize s)))"

definition nReleaseBlocks :: "Settings \<Rightarrow> real \<Rightarrow> nat" where
  "nReleaseBlocks s sampleRate =
    to_unsigned (1 + cast_int (mReleaseTime s * sampleRate / real (ctor_mStepSize s)))"

definition ctor_mNWindowsToExamine :: "Settings \<Rightarrow> real \<Rightarrow> nat" where
  "ctor_mNWindowsToExamine s sampleRate =
    (if Settings.mMethod s = DM_OLD_METHOD
     then to_unsigned (max 2 (cast_int (minSignalTime * sampleRate / real (ctor_mStepSize s))))
     else (1 + StepsPerWindow s) mod 2 ^ 32)"

definition ctor_mCenter :: "Settings \<Rightarrow> real \<Rightarrow> nat" where
  "ctor_mCenter s sampleRate = ctor_mNWindowsToExamine s sampleRate div 2"

definition ctor_mHistoryLen :: "Settings \<Rightarrow> real \<Rightarrow> nat" where
  "ctor_mHistoryLen s sampleRate =
    (if Settings.mDoProfile s then 1
     else max (ctor_mNWindowsToExamine s sampleRate)
            ((ctor_mCenter s sampleRate + nAttackBlocks s sampleRate) mod 2 ^ 32))"

definition constantTerm :: "Settings \<Rightarrow> real" where
  "constantTerm s = productConstantTerm (windowTypesInfo ! nat (Settings.mWindowTypes s))"

definition multiplier :: "Settings \<Rightarrow> real" where
  "multiplier s = 1 / (constantTerm s * real (StepsPerWindow s))"

text \<open>The analysis window: the \<^verbatim>\<open>switch\<close> leaves the vector empty for
  \<^verbatim>\<open>WT_RECTANGULAR_HANN\<close>; in the default branch the factor \<open>m\<close> is the overlap
  multiplier when the output window is rectangular.\<close>

definition ctor_mInWindow :: "Settings \<Rightarrow> real list" where
  "ctor_mInWindow s =
    (if Settings.mWindowTypes s = WT_RECTANGULAR_HANN then []
     else
       let rectangularOut =
             (Settings.mWindowTypes s = WT_HAMMING_RECTANGULAR \<or>
              Settings.mWindowTypes s = WT_HANN_RECTANGULAR);
           m = (if rectangularOut then multiplier s else 1);
           coefficients = inCoefficients (windowTypesInfo ! nat (Settings.mWindowTypes s));
           c0 = coefficients ! 0;
           c1 = coefficients ! 1;
           c2 = coefficients ! 2
       in map (\<lambda>ii. m * (c0 + c1 * cos ((2 * pi * real ii) / real (WindowSize s))
                          + c2 * cos ((4 * pi * real ii) / real (WindowSize s))))
            [0 ..< WindowSize s])"

text \<open>The synthesis window, created only when not profiling.\<close>

definition ctor_mOutWindow :: "Settings \<Rightarrow> real list" where
  "ctor_mOutWindow s =
    (if Settings.mDoProfile s then []
     else if Settings.mWindowTypes s = WT_HANN_RECTANGULAR \<or>
             Settings.mWindowTypes s = WT_HAMMING_RECTANGULAR then []
     else if Settings.mWindowTypes s = WT_HAMMING_INV_HAMMING
     then map (\<lambda>ii. multiplier s / ctor_mInWindow s ! ii) [0 ..< WindowSize s]
     else
       let coefficients = outCoefficients (windowTypesInfo ! nat (Settings.mWindowTypes s));
           c0 = coefficients ! 0;
           c1 = coefficients ! 1;
           c2 = coefficients ! 2
       in map (\<lambda>ii. multiplier s *
                       (c0 + c1 * cos ((2 * pi * real ii) / real (WindowSize s))
                          + c2 * cos ((4 * pi * real ii) / real (WindowSize s))))
            [0 ..< WindowSize s])"

text \<open>\<^verbatim>\<open>Worker::Worker(settings, sampleRate)\<close>; the third argument is the handle that
  \<^verbatim>\<open>GetFFT(mWindowSize)\<close> returns. \<^verbatim>\<open>EXPERIMENTAL_SPECTRAL_EDITING\<close> and
  \<^verbatim>\<open>OLD_METHOD_AVAILABLE\<close> are not defined.\<close>

definition Worker_Worker :: "Settings \<Rightarrow> real \<Rightarrow> FFTParam \<Rightarrow> Worker" where
  "Worker_Worker s sampleRate fft =
    \<lparr>mDoProfile = Settings.mDoProfile s,
     mSampleRate = sampleRate,
     mWindowSize = WindowSize s,
     hFFT = fft,
     mFFTBuffer = replicate (WindowSize s) 0,
     mInWaveBuffer = replicate (WindowSize s) 0,
     mOutOverlapBuffer = replicate (WindowSize s) 0,
     mInWindow = ctor_mInWindow s,
     mOutWindow = ctor_mOutWindow s,
     mSpectrumSize = 1 + WindowSize s div 2,
     mFreqSmoothingScratch = replicate (1 + WindowSize s div 2) 0,
     mFreqSmoothingBins = to_size_t (cast_int (mFreqSmoothingBands s)),
     mBinLow = 0,
     mBinHigh = int (1 + WindowSize s div 2),
     mNoiseReductionChoice = Settings.mNoiseReductionChoice s,
     mStepsPerWindow = StepsPerWindow s,
     mStepSize = ctor_mStepSize s,
     mMethod = Settings.mMethod s,
     mNewSensitivity = Settings.mNewSensitivity s * ln 10,
     mInSampleCount = 0,
     mOutStepCount = 0,
     mInWavePos = 0,
     mOneBlockAttack = DB_TO_LINEAR (noiseGain s / real (nAttackBlocks s sampleRate)),
     mOneBlockRelease = DB_TO_LINEAR (noiseGain s / real (nReleaseBlocks s sampleRate)),
     mNoiseAttenFactor = DB_TO_LINEAR (noiseGain s),
     mOldSensitivityFactor = 10 powr (mOldSensitivity s / 10),
     mNWindowsToExamine = ctor_mNWindowsToExamine s sampleRate,
     mCenter = ctor_mCenter s sampleRate,
     mHistoryLen = ctor_mHistoryLen s sampleRate,
     mQueue = replicate (ctor_mHistoryLen s sampleRate) (Record_Record (1 + WindowSize s div 2))\<rparr>"

subsection \<open>Concrete inputs\<close>

text \<open>Inputs at which the theorems below are instantiated: a handle with the
  bit-reversal table of an eight-point transform (no theorem depends on what the two
  transforms compute), the default settings in reduce mode, and the default settings
  with the window types ``Hamming, none''.\<close>

definition example_fft :: FFTParam where
  "example_fft = \<lparr>BitReversed = [0, 4, 2, 6], RealFFTf = (\<lambda>b. b), InverseRealFFTf = (\<lambda>b. b)\<rparr>"

definition hamming_settings :: Settings where
  "hamming_settings = (PrefsIO_read NRC_REDUCE_NOISE)
     \<lparr>Settings.mDoProfile := False, Settings.mWindowTypes := WT_HAMMING_RECTANGULAR\<rparr>"

definition reduce_settings :: Settings where
  "reduce_settings = (PrefsIO_read NRC_REDUCE_NOISE)\<lparr>Settings.mDoProfile := False\<rparr>"

subsection \<open>The profile statistics\<close>

text \<open>\<^verbatim>\<open>Worker::GatherStatistics\<close>: one more window of the track
  (\<^verbatim>\<open>++statistics.mTrackWindows\<close>, on an \<^verbatim>\<open>int\<close>), and the power of the newest record of
  the queue is added to the sums, band by band.\<close>

definition GatherStatistics :: "Worker \<Rightarrow> Statistics \<Rightarrow> Statistics" where
  "GatherStatistics w statistics =
    (let pPower = mSpectrums (mQueue w ! 0)
     in statistics
          \<lparr>mTrackWindows := to_int (mTrackWindows statistics + 1),
           mSums := foldl (\<lambda>pSum jj. pSum[jj := pSum ! jj + pPower ! jj])
                      (mSums statistics) [0 ..< mSpectrumSize w]\<rparr>)"

text \<open>\<^verbatim>\<open>Worker::FinishTrackStatistics\<close>. \<^verbatim>\<open>denom\<close> is an \<^verbatim>\<open>int\<close>, the sum of two
  \<^verbatim>\<open>int\<close>s. The loop runs only when the track has windows; the state of the loop is the
  pair of the means \<open>ms\<close> and the sums \<open>ss\<close>.\<close>

definition FinishTrackStatistics_loop ::
    "int \<Rightarrow> int \<Rightarrow> real list \<times> real list \<Rightarrow> nat \<Rightarrow> real list \<times> real list" where
  "FinishTrackStatistics_loop mult denom vs ii =
    (case vs of (ms, ss) \<Rightarrow>
      (ms[ii := (ms ! ii * real_of_int mult + ss ! ii) / real_of_int denom],
       ss[ii := 0]))"

definition FinishTrackStatistics :: "Statistics \<Rightarrow> Statistics" where
  "FinishTrackStatistics statistics =
    (let windows = mTrackWindows statistics;
         mult = mTotalWindows statistics;
         denom = to_int (windows + mult);
         (ms, ss) =
           (if windows \<noteq> 0
            then foldl (FinishTrackStatistics_loop mult denom)
                   (mMeans statistics, mSums statistics) [0 ..< length (mMeans statistics)]
            else (mMeans statistics, mSums statistics))
     in statistics\<lparr>mMeans := ms, mSums := ss, mTrackWindows := 0, mTotalWindows := denom\<rparr>)"

text \<open>A profile source is the sequence of the worker's states at its windows:
  \<^verbatim>\<open>ProcessSamples\<close> calls \<^verbatim>\<open>GatherStatistics\<close> at each, and \<^verbatim>\<open>ProcessOne\<close> calls
  \<^verbatim>\<open>FinishTrackStatistics\<close> when the source ends.\<close>

definition profile_source :: "Statistics \<Rightarrow> Worker list \<Rightarrow> Statistics" where
  "profile_source statistics ws =
    FinishTrackStatistics (foldl (\<lambda>st w. GatherStatistics w st) statistics ws)"

definition profile_sources :: "Statistics \<Rightarrow> Worker list list \<Rightarrow> Statistics" where
  "profile_sources statistics wss = foldl profile_source statistics wss"

text \<open>The power of band \<open>b\<close> in the window that the worker state \<open>w\<close> holds at the head
  of its queue, the sum of these over the windows of all sources, and the number of
  windows.\<close>

definition power_of :: "Worker \<Rightarrow> nat \<Rightarrow> real" where
  "power_of w b = mSpectrums (mQueue w ! 0) ! b"

definition total_power :: "Worker list list \<Rightarrow> nat \<Rightarrow> real" where
  "total_power wss b = (\<Sum>ws\<leftarrow>wss. \<Sum>w\<leftarrow>ws. power_of w b)"

definition total_windows :: "Worker list list \<Rightarrow> nat" where
  "total_windows wss = (\<Sum>ws\<leftarrow>wss. length ws)"

text \<open>Settings with the smallest window: eight samples, two steps per window, a
  rectangular analysis window and no attack time, so that the history of the reducing
  worker has three records of five bands each. \<open>window_worker\<close> is a profiling worker
  that holds the power spectrum \<open>p\<close> at the head of its queue.\<close>

definition small_settings :: Settings where
  "small_settings = (PrefsIO_read NRC_REDUCE_NOISE)
     \<lparr>Settings.mDoProfile := False, mNoiseGain := 20, mAttackTime := 0, mReleaseTime := 0,
      Settings.mWindowTypes := WT_RECTANGULAR_HANN,
      mWindowSizeChoice := 0, mStepsPerWindowChoice := 0\<rparr>"

definition window_worker :: "real list \<Rightarrow> Worker" where
  "window_worker p =
    (Worker_Worker (small_settings\<lparr>Settings.mDoProfile := True\<rparr>) 44100 example_fft)
      \<lparr>mQueue := [(Record_Record 5)\<lparr>mSpectrums := p\<rparr>]\<rparr>"

subsection \<open>Operations of the worker\<close>

text \<open>Arithmetic of the machine types: \<^verbatim>\<open>sub_unsigned\<close>, \<^verbatim>\<open>sub_size_t\<close> and
  \<^verbatim>\<open>add_size_t\<close> are the wrapping operations of \<^verbatim>\<open>unsigned\<close> and \<^verbatim>\<open>size_t\<close>.\<close>

definition sub_unsigned :: "nat \<Rightarrow> nat \<Rightarrow> nat" where
  "sub_unsigned a b = nat ((int a - int b) mod 2 ^ 32)"

definition sub_size_t :: "nat \<Rightarrow> nat \<Rightarrow> nat" where
  "sub_size_t a b = nat ((int a - int b) mod 2 ^ 64)"

definition add_size_t :: "nat \<Rightarrow> nat \<Rightarrow> nat" where
  "add_size_t a b = (a + b) mod 2 ^ 64"

text \<open>\<^verbatim>\<open>std::fill(p + lo, p + hi, v)\<close> on the vector that starts at \<open>p\<close>.\<close>

definition std_fill :: "nat \<Rightarrow> nat \<Rightarrow> 'a \<Rightarrow> 'a list \<Rightarrow> 'a list" where
  "std_fill lo hi v xs = map (\<lambda>i. if lo \<le> i \<and> i < hi then v else xs ! i) [0 ..< length xs]"

text \<open>\<^verbatim>\<open>Worker::StartNewTrack\<close>.\<close>

definition StartNewTrack_record :: "Worker \<Rightarrow> Record \<Rightarrow> Record" where
  "StartNewTrack_record w record =
    record\<lparr>mSpectrums := std_fill 0 (mSpectrumSize w) 0 (mSpectrums record),
           mRealFFTs := std_fill 0 (sub_size_t (mSpectrumSize w) 1) 0 (mRealFFTs record),
           mImagFFTs := std_fill 0 (sub_size_t (mSpectrumSize w) 1) 0 (mImagFFTs record),
           mGains := std_fill 0 (mSpectrumSize w) (mNoiseAttenFactor w) (mGains record)\<rparr>"

definition StartNewTrack :: "Worker \<Rightarrow> Worker" where
  "StartNewTrack w =
    w\<lparr>mQueue := map (\<lambda>ii. if ii < mHistoryLen w then StartNewTrack_record w (mQueue w ! ii)
                            else mQueue w ! ii) [0 ..< length (mQueue w)],
      mOutOverlapBuffer := std_fill 0 (Worker.mWindowSize w) 0 (mOutOverlapBuffer w),
      mInWaveBuffer := std_fill 0 (Worker.mWindowSize w) 0 (mInWaveBuffer w),
      mInWavePos :=
        (if Worker.mDoProfile w then 0
         else to_int (int (sub_size_t (Worker.mWindowSize w) (mStepSize w)))),
      mOutStepCount :=
        (if Worker.mDoProfile w then - to_int (int (sub_unsigned (mHistoryLen w) 1))
         else - to_int (int (sub_unsigned (mHistoryLen w) 1))
              - to_int (int (sub_unsigned (mStepsPerWindow w) 1))),
      mInSampleCount := 0\<rparr>"

text \<open>\<^verbatim>\<open>Worker::FillFirstHistoryWindow\<close>: the windowed input, its transform, and the
  record at the head of the queue. The loop over the interior bins writes the real part,
  the imaginary part and the power of bin \<open>ii\<close>; then the DC and Nyquist bins are written,
  and the gains unless the noise is isolated.\<close>

definition FillFirstHistoryWindow_bin :: "int list \<Rightarrow> real list \<Rightarrow> Record \<Rightarrow> nat \<Rightarrow> Record" where
  "FillFirstHistoryWindow_bin pBitReversed buffer record ii =
    (let kk = nat (pBitReversed ! ii);
         realPart = buffer ! kk;
         imagPart = buffer ! (kk + 1)
     in record\<lparr>mRealFFTs := (mRealFFTs record)[ii := realPart],
               mImagFFTs := (mImagFFTs record)[ii := imagPart],
               mSpectrums := (mSpectrums record)[ii := realPart * realPart + imagPart * imagPart]\<rparr>)"

definition FillFirstHistoryWindow_input :: "Worker \<Rightarrow> real list" where
  "FillFirstHistoryWindow_input w =
    (if length (mInWindow w) > 0
     then map (\<lambda>ii. if ii < Worker.mWindowSize w
                     then mInWaveBuffer w ! ii * mInWindow w ! ii
                     else mFFTBuffer w ! ii) [0 ..< length (mFFTBuffer w)]
     else map (\<lambda>ii. if ii < Worker.mWindowSize w then mInWaveBuffer w ! ii
                     else mFFTBuffer w ! ii) [0 ..< length (mFFTBuffer w)])"

definition FillFirstHistoryWindow_record :: "Worker \<Rightarrow> real list \<Rightarrow> Record \<Rightarrow> Record" where
  "FillFirstHistoryWindow_record w buffer record =
    (let last = sub_size_t (mSpectrumSize w) 1;
         record1 = foldl (FillFirstHistoryWindow_bin (BitReversed (hFFT w)) buffer)
                     record [1 ..< last];
         dc = buffer ! 0;
         nyquist = buffer ! 1
     in record1
          \<lparr>mRealFFTs := (mRealFFTs record1)[0 := dc],
           mSpectrums := (mSpectrums record1)[0 := dc * dc, last := nyquist * nyquist],
           mImagFFTs := (mImagFFTs record1)[0 := nyquist],
           mGains :=
             (if Worker.mNoiseReductionChoice w \<noteq> NRC_ISOLATE_NOISE
              then std_fill 0 (mSpectrumSize w) (mNoiseAttenFactor w) (mGains record1)
              else mGains record1)\<rparr>)"

definition FillFirstHistoryWindow :: "Worker \<Rightarrow> Worker" where
  "FillFirstHistoryWindow w =
    (let buffer = RealFFTf (hFFT w) (FillFirstHistoryWindow_input w)
     in w\<lparr>mFFTBuffer := buffer,
          mQueue := (mQueue w)[0 := FillFirstHistoryWindow_record w buffer (mQueue w ! 0)]\<rparr>)"

text \<open>\<^verbatim>\<open>Worker::RotateHistoryWindows\<close>: \<^verbatim>\<open>std::rotate(begin, end - 1, end)\<close> makes the
  last record the first.\<close>

definition RotateHistoryWindows :: "Worker \<Rightarrow> Worker" where
  "RotateHistoryWindows w = w\<lparr>mQueue := rotate (length (mQueue w) - 1) (mQueue w)\<rparr>"

text \<open>\<^verbatim>\<open>Worker::Classify\<close>. The two loops keep the greatest values seen so far. The
  case \<^verbatim>\<open>DM_OLD_METHOD\<close> is compiled out, so that method falls to the default.\<close>

definition Classify_second :: "real list \<Rightarrow> real \<times> real" where
  "Classify_second powers =
    foldl (\<lambda>(greatest, second) power.
             if power \<ge> greatest then (power, greatest)
             else if power \<ge> second then (greatest, power)
             else (greatest, second))
      (0, 0) powers"

definition Classify_third :: "real list \<Rightarrow> real \<times> real \<times> real" where
  "Classify_third powers =
    foldl (\<lambda>(greatest, second, third) power.
             if power \<ge> greatest then (power, greatest, second)
             else if power \<ge> second then (greatest, power, second)
             else if power \<ge> third then (greatest, second, power)
             else (greatest, second, third))
      (0, 0, 0) powers"

definition examined :: "Worker \<Rightarrow> nat \<Rightarrow> real list" where
  "examined w band = map (\<lambda>ii. mSpectrums (mQueue w ! ii) ! band) [0 ..< mNWindowsToExamine w]"

definition secondGreatest :: "Worker \<Rightarrow> Statistics \<Rightarrow> nat \<Rightarrow> bool" where
  "secondGreatest w statistics band =
    (snd (Classify_second (examined w band)) \<le> Worker.mNewSensitivity w * mMeans statistics ! band)"

definition Classify :: "Worker \<Rightarrow> Statistics \<Rightarrow> nat \<Rightarrow> bool" where
  "Classify w statistics band =
    (if Worker.mMethod w = DM_MEDIAN then
       (if mNWindowsToExamine w = 3 then secondGreatest w statistics band
        else if mNWindowsToExamine w = 5 then
          snd (snd (Classify_third (examined w band)))
            \<le> Worker.mNewSensitivity w * mMeans statistics ! band
        else True)
     else if Worker.mMethod w = DM_SECOND_GREATEST then secondGreatest w statistics band
     else True)"

text \<open>\<^verbatim>\<open>Worker::ApplyFreqSmoothing\<close>: the result is the scratch vector and the gains.
  \<open>j0\<close> and \<open>j1\<close> are \<^verbatim>\<open>int\<close>s computed from an \<^verbatim>\<open>int\<close> and a \<^verbatim>\<open>size_t\<close>.\<close>

definition smoothing_j0 :: "Worker \<Rightarrow> nat \<Rightarrow> int" where
  "smoothing_j0 w ii = max 0 (int ii - to_int (int (mFreqSmoothingBins w)))"

definition smoothing_j1 :: "Worker \<Rightarrow> nat \<Rightarrow> int" where
  "smoothing_j1 w ii =
    to_int (int (min (sub_size_t (mSpectrumSize w) 1) (add_size_t ii (mFreqSmoothingBins w))))"

definition ApplyFreqSmoothing_bin :: "Worker \<Rightarrow> real list \<Rightarrow> real list \<Rightarrow> nat \<Rightarrow> real list" where
  "ApplyFreqSmoothing_bin w gains scratch ii =
    (let j0 = smoothing_j0 w ii;
         j1 = smoothing_j1 w ii;
         total = foldl (\<lambda>acc jj. acc + gains ! nat jj) (scratch ! ii) [j0 .. j1]
     in scratch[ii := total / real_of_int (j1 - j0 + 1)])"

definition ApplyFreqSmoothing :: "Worker \<Rightarrow> real list \<Rightarrow> real list \<times> real list" where
  "ApplyFreqSmoothing w gains =
    (if mFreqSmoothingBins w = 0 then (mFreqSmoothingScratch w, gains)
     else
       let scratch0 = std_fill 0 (mSpectrumSize w) 0 (mFreqSmoothingScratch w);
           logs = map (\<lambda>ii. if ii < mSpectrumSize w then ln (gains ! ii) else gains ! ii)
                    [0 ..< length gains];
           scratch = foldl (ApplyFreqSmoothing_bin w logs) scratch0 [0 ..< mSpectrumSize w]
       in (scratch,
           map (\<lambda>ii. if ii < mSpectrumSize w then exp (scratch ! ii) else logs ! ii)
             [0 ..< length logs]))"

text \<open>\<^verbatim>\<open>Worker::ReduceNoise\<close>, block by block. First the gains of the centre record:
  outside \<open>[mBinLow, mBinHigh)\<close> they are filled, inside they follow the classifier.\<close>

definition ReduceNoise_classify :: "Worker \<Rightarrow> Statistics \<Rightarrow> real list \<Rightarrow> real list" where
  "ReduceNoise_classify w statistics pGain =
    (if Worker.mNoiseReductionChoice w = NRC_ISOLATE_NOISE then
       foldl (\<lambda>g jj. g[nat jj := (if Classify w statistics (nat jj) then 1 else 0)])
         (std_fill (nat (mBinHigh w)) (mSpectrumSize w) 0 (std_fill 0 (nat (mBinLow w)) 0 pGain))
         [mBinLow w .. mBinHigh w - 1]
     else
       foldl (\<lambda>g jj. if \<not> Classify w statistics (nat jj) then g[nat jj := 1] else g)
         (std_fill (nat (mBinHigh w)) (mSpectrumSize w) 1 (std_fill 0 (nat (mBinLow w)) 1 pGain))
         [mBinLow w .. mBinHigh w - 1])"

text \<open>The attack: for band \<open>jj\<close> the walk over the indices \<open>ii\<close> of the queue after the
  centre; the \<^verbatim>\<open>break\<close> ends the walk.\<close>

fun attack_walk :: "Worker \<Rightarrow> nat \<Rightarrow> nat list \<Rightarrow> Record list \<Rightarrow> Record list" where
  "attack_walk w jj [] queue = queue"
| "attack_walk w jj (ii # iis) queue =
    (let minimum = max (mNoiseAttenFactor w)
                     (mGains (queue ! (ii - 1)) ! jj * mOneBlockAttack w);
         gain = mGains (queue ! ii) ! jj
     in if gain < minimum
        then attack_walk w jj iis
               (queue[ii := (queue ! ii)\<lparr>mGains := (mGains (queue ! ii))[jj := minimum]\<rparr>])
        else queue)"

definition ReduceNoise_attack :: "Worker \<Rightarrow> Record list \<Rightarrow> Record list" where
  "ReduceNoise_attack w queue =
    foldl (\<lambda>q jj. attack_walk w jj [mCenter w + 1 ..< mHistoryLen w] q)
      queue [0 ..< mSpectrumSize w]"

text \<open>The release writes the record before the centre.\<close>

definition ReduceNoise_release :: "Worker \<Rightarrow> Record list \<Rightarrow> Record list" where
  "ReduceNoise_release w queue =
    (let next = sub_unsigned (mCenter w) 1;
         pThisGain = mGains (queue ! mCenter w);
         pNextGain =
           foldl (\<lambda>g jj. g[jj := max (g ! jj)
                                   (max (mNoiseAttenFactor w) (pThisGain ! jj * mOneBlockRelease w))])
             (mGains (queue ! next)) [0 ..< mSpectrumSize w]
     in queue[next := (queue ! next)\<lparr>mGains := pNextGain\<rparr>])"

text \<open>The gains applied to the stored transform of the last record of the queue.\<close>

definition ReduceNoise_applyGain :: "Worker \<Rightarrow> Record \<Rightarrow> real list" where
  "ReduceNoise_applyGain w record =
    (let last = sub_size_t (mSpectrumSize w) 1;
         residue = (if Worker.mNoiseReductionChoice w = NRC_LEAVE_RESIDUE then 1 else 0);
         buffer = foldl (\<lambda>b k. b[2 * k := mRealFFTs record ! k * (mGains record ! k - residue),
                                  2 * k + 1 := mImagFFTs record ! k * (mGains record ! k - residue)])
                    (mFFTBuffer w) [1 ..< 1 + sub_size_t (mSpectrumSize w) 2]
     in buffer[0 := mRealFFTs record ! 0 * (mGains record ! 0 - residue),
               1 := mImagFFTs record ! 0 * (mGains record ! last - residue)])"

text \<open>Overlap-add of the inverse transform into the output buffer.\<close>

definition ReduceNoise_overlapAdd :: "Worker \<Rightarrow> real list \<Rightarrow> real list" where
  "ReduceNoise_overlapAdd w buffer =
    (let last = sub_size_t (mSpectrumSize w) 1;
         pBitReversed = BitReversed (hFFT w)
     in if length (mOutWindow w) > 0 then
          foldl (\<lambda>pOut jj.
                   let kk = nat (pBitReversed ! jj)
                   in pOut[2 * jj := pOut ! (2 * jj) + buffer ! kk * mOutWindow w ! (2 * jj),
                           2 * jj + 1 := pOut ! (2 * jj + 1)
                                         + buffer ! (kk + 1) * mOutWindow w ! (2 * jj + 1)])
            (mOutOverlapBuffer w) [0 ..< last]
        else
          foldl (\<lambda>pOut jj.
                   let kk = nat (pBitReversed ! jj)
                   in pOut[2 * jj := pOut ! (2 * jj) + buffer ! kk,
                           2 * jj + 1 := pOut ! (2 * jj + 1) + buffer ! (kk + 1)])
            (mOutOverlapBuffer w) [0 ..< last])"

text \<open>The output of the last record, done when \<open>mOutStepCount \<ge> -(int)(mStepsPerWindow - 1)\<close>:
  the gains of the record are smoothed unless the noise is isolated, applied to the
  stored transform, inverted and overlap-added; the first step of the output buffer is
  appended to the output track (the list of the samples appended so far) once
  \<open>mOutStepCount \<ge> 0\<close>, and the output buffer is shifted by one step.\<close>

definition ReduceNoise_smooth :: "Worker \<Rightarrow> real list \<times> real list" where
  "ReduceNoise_smooth w =
    (let record = mQueue w ! sub_unsigned (mHistoryLen w) 1
     in if Worker.mNoiseReductionChoice w \<noteq> NRC_ISOLATE_NOISE
        then ApplyFreqSmoothing w (mGains record)
        else (mFreqSmoothingScratch w, mGains record))"

definition ReduceNoise_shift :: "Worker \<Rightarrow> real list \<Rightarrow> real list" where
  "ReduceNoise_shift w overlap =
    (let keep = sub_size_t (Worker.mWindowSize w) (mStepSize w)
     in std_fill keep (Worker.mWindowSize w) 0
          (map (\<lambda>i. if i < keep then overlap ! (i + mStepSize w) else overlap ! i)
             [0 ..< length overlap]))"

definition ReduceNoise_output :: "real list \<Rightarrow> Worker \<Rightarrow> real list \<times> Worker" where
  "ReduceNoise_output outputTrack w =
    (let tail = sub_unsigned (mHistoryLen w) 1;
         record' = (mQueue w ! tail)\<lparr>mGains := snd (ReduceNoise_smooth w)\<rparr>;
         buffer = InverseRealFFTf (hFFT w) (ReduceNoise_applyGain w record');
         overlap = ReduceNoise_overlapAdd w buffer
     in ((if mOutStepCount w \<ge> 0 then outputTrack @ take (mStepSize w) overlap
          else outputTrack),
         w\<lparr>mFreqSmoothingScratch := fst (ReduceNoise_smooth w),
           mQueue := (mQueue w)[tail := record'],
           mFFTBuffer := buffer,
           mOutOverlapBuffer := ReduceNoise_shift w overlap\<rparr>))"

definition ReduceNoise_gains :: "Worker \<Rightarrow> Statistics \<Rightarrow> Record list" where
  "ReduceNoise_gains w statistics =
    (let queue1 = (mQueue w)
           [mCenter w := (mQueue w ! mCenter w)
              \<lparr>mGains := ReduceNoise_classify w statistics (mGains (mQueue w ! mCenter w))\<rparr>]
     in if Worker.mNoiseReductionChoice w \<noteq> NRC_ISOLATE_NOISE
        then ReduceNoise_release w (ReduceNoise_attack w queue1)
        else queue1)"

definition ReduceNoise :: "Statistics \<Rightarrow> real list \<Rightarrow> Worker \<Rightarrow> real list \<times> Worker" where
  "ReduceNoise statistics outputTrack w =
    (if mOutStepCount w \<ge> - to_int (int (sub_unsigned (mStepsPerWindow w) 1))
     then ReduceNoise_output outputTrack (w\<lparr>mQueue := ReduceNoise_gains w statistics\<rparr>)
     else (outputTrack, w\<lparr>mQueue := ReduceNoise_gains w statistics\<rparr>))"

text \<open>\<^verbatim>\<open>Worker::ProcessSamples\<close>. \<open>ProcessSamples_window\<close> is the body of
  \<^verbatim>\<open>if (mInWavePos == (int) mWindowSize)\<close>: one window is analysed, then gathered or
  reduced (\<^verbatim>\<open>mDoProfile\<close> is constant, so it is read before the analysis), the step is
  counted, the queue rotated and the input buffer shifted by one step. The state is the
  statistics, the output track and the worker.\<close>

definition ProcessSamples_shift :: "Worker \<Rightarrow> Worker" where
  "ProcessSamples_shift w =
    (let keep = sub_size_t (Worker.mWindowSize w) (mStepSize w)
     in w\<lparr>mInWaveBuffer :=
            map (\<lambda>i. if i < keep then mInWaveBuffer w ! (i + mStepSize w)
                      else mInWaveBuffer w ! i) [0 ..< length (mInWaveBuffer w)],
          mInWavePos := to_int (mInWavePos w - int (mStepSize w))\<rparr>)"

definition ProcessSamples_step :: "Worker \<Rightarrow> Worker" where
  "ProcessSamples_step w =
    ProcessSamples_shift (RotateHistoryWindows (w\<lparr>mOutStepCount := mOutStepCount w + 1\<rparr>))"

definition ProcessSamples_window ::
    "Statistics \<times> real list \<times> Worker \<Rightarrow> Statistics \<times> real list \<times> Worker" where
  "ProcessSamples_window state =
    (case state of (statistics, outputTrack, w) \<Rightarrow>
      if Worker.mDoProfile w
      then (GatherStatistics (FillFirstHistoryWindow w) statistics, outputTrack,
            ProcessSamples_step (FillFirstHistoryWindow w))
      else (statistics,
            fst (ReduceNoise statistics outputTrack (FillFirstHistoryWindow w)),
            ProcessSamples_step
              (snd (ReduceNoise statistics outputTrack (FillFirstHistoryWindow w)))))"

partial_function (option) ProcessSamples ::
    "Statistics \<times> real list \<times> Worker \<Rightarrow> nat \<Rightarrow> real list
       \<Rightarrow> (Statistics \<times> real list \<times> Worker) option" where
  "ProcessSamples state len buffer =
    (case state of (statistics, outputTrack, w) \<Rightarrow>
      if len \<noteq> 0 \<and> mOutStepCount w * int (mStepSize w) < mInSampleCount w then
        let avail = min len (sub_size_t (Worker.mWindowSize w) (nat (mInWavePos w mod 2 ^ 64)));
            pos = nat (mInWavePos w);
            w1 = w\<lparr>mInWaveBuffer :=
                     map (\<lambda>i. if pos \<le> i \<and> i < pos + avail then buffer ! (i - pos)
                               else mInWaveBuffer w ! i) [0 ..< length (mInWaveBuffer w)],
                   mInWavePos := to_int (mInWavePos w + int avail)\<rparr>
        in if mInWavePos w1 = to_int (int (Worker.mWindowSize w1))
           then ProcessSamples (ProcessSamples_window (statistics, outputTrack, w1))
                  (len - avail) (drop avail buffer)
           else ProcessSamples (statistics, outputTrack, w1) (len - avail) (drop avail buffer)
      else Some state)"

subsection \<open>Notions of the specification\<close>

text \<open>The second-largest of a list of values: the second entry when the list is sorted
  in decreasing order.\<close>

definition second_largest :: "real list \<Rightarrow> real" where
  "second_largest xs = rev (sort xs) ! 1"

text \<open>A reducing worker of the small settings whose three records hold the power
  spectrums \<open>p0\<close>, \<open>p1\<close> and \<open>p2\<close> and the gain vectors \<open>g0\<close>, \<open>g1\<close> and \<open>g2\<close>.\<close>

definition ring_worker :: "real list \<Rightarrow> real list \<Rightarrow> real list \<Rightarrow> real list \<Rightarrow> real list \<Rightarrow> real list \<Rightarrow> Worker" where
  "ring_worker p0 p1 p2 g0 g1 g2 =
    (Worker_Worker small_settings 44100 example_fft)
      \<lparr>mQueue := [(Record_Record 5)\<lparr>mSpectrums := p0, mGains := g0\<rparr>,
                  (Record_Record 5)\<lparr>mSpectrums := p1, mGains := g1\<rparr>,
                  (Record_Record 5)\<lparr>mSpectrums := p2, mGains := g2\<rparr>]\<rparr>"

text \<open>The number of values above a threshold.\<close>

definition count_above :: "real \<Rightarrow> real list \<Rightarrow> nat" where
  "count_above t xs = length (filter (\<lambda>x. t < x) xs)"

text \<open>The window of half-width \<open>B\<close> around bin \<open>i\<close>, clipped to the \<open>n\<close> bins
  \<open>0, \<dots>, n - 1\<close>: the bins from \<open>max 0 (i - B)\<close> to \<open>min (n - 1) (i + B)\<close>.\<close>

definition clipped_window :: "nat \<Rightarrow> nat \<Rightarrow> nat \<Rightarrow> nat set" where
  "clipped_window n B i = {nat (max 0 (int i - int B)) .. min (n - 1) (i + B)}"

text \<open>The gains of band \<open>b\<close> along the queue, and the attack as the specification
  words it: walking the gains after the centre, the candidate is the larger of the
  attenuation factor and the previous gain times the attack multiplier; a gain below the
  candidate is overwritten and the walk goes on, otherwise the walk stops.\<close>

definition column :: "Record list \<Rightarrow> nat \<Rightarrow> real list" where
  "column queue b = map (\<lambda>record. mGains record ! b) queue"

fun attack_curve :: "real \<Rightarrow> real \<Rightarrow> real \<Rightarrow> real list \<Rightarrow> real list" where
  "attack_curve atten a prev [] = []"
| "attack_curve atten a prev (g # gs) =
    (let candidate = max atten (prev * a)
     in if g < candidate then candidate # attack_curve atten a candidate gs else g # gs)"

text \<open>A worker with a history of four records, whose gains of band 0 are \<open>a0\<close>, \<open>a1\<close>,
  \<open>a2\<close> and \<open>a3\<close>, an attenuation factor of \<open>1 / 1000\<close> (60 dB) and attack and release
  multipliers of \<open>1 / 10\<close> (three blocks each). Band 0 has the powers 7 and 5 in the two
  newest windows, the other bands have no power.\<close>

definition shaping_worker :: "real \<Rightarrow> real \<Rightarrow> real \<Rightarrow> real \<Rightarrow> Worker" where
  "shaping_worker a0 a1 a2 a3 =
    (Worker_Worker small_settings 44100 example_fft)
      \<lparr>mOneBlockAttack := 1 / 10, mOneBlockRelease := 1 / 10, mNoiseAttenFactor := 1 / 1000,
       mHistoryLen := 4,
       mQueue := [(Record_Record 5)\<lparr>mSpectrums := [7, 0, 0, 0, 0], mGains := [a0, 1, 1, 1, 1]\<rparr>,
                  (Record_Record 5)\<lparr>mSpectrums := [5, 0, 0, 0, 0], mGains := [a1, 1, 1, 1, 1]\<rparr>,
                  (Record_Record 5)\<lparr>mGains := [a2, 1, 1, 1, 1]\<rparr>,
                  (Record_Record 5)\<lparr>mGains := [a3, 1, 1, 1, 1]\<rparr>]\<rparr>"

subsection \<open>Invariants of the worker\<close>

text \<open>Every power of every record of the queue is non-negative.\<close>

definition spectrums_nonneg :: "Worker \<Rightarrow> bool" where
  "spectrums_nonneg w = (\<forall>record \<in> set (mQueue w). \<forall>x \<in> set (mSpectrums record). 0 \<le> x)"

text \<open>Every gain of every record of a queue lies between \<open>lo\<close> and 1; for the queue of
  a worker \<open>lo\<close> is its attenuation factor.\<close>

definition in_range :: "real \<Rightarrow> Record list \<Rightarrow> bool" where
  "in_range lo queue = (\<forall>record \<in> set queue. \<forall>g \<in> set (mGains record). lo \<le> g \<and> g \<le> 1)"

definition gains_in_range :: "Worker \<Rightarrow> bool" where
  "gains_in_range w = in_range (mNoiseAttenFactor w) (mQueue w)"

text \<open>The sizes that the constructor establishes when it is not profiling: the queue has
  \<open>mHistoryLen\<close> records with vectors of the size of the spectrum, the centre has a
  record before it and is inside the queue, the band of interest is the whole spectrum,
  and the sizes fit the \<^verbatim>\<open>int\<close>s and \<^verbatim>\<open>unsigned\<close>s that hold them.\<close>

definition Record_sized :: "nat \<Rightarrow> Record \<Rightarrow> bool" where
  "Record_sized n record =
    (length (mSpectrums record) = n \<and> length (mGains record) = n \<and>
     length (mRealFFTs record) = n - 1 \<and> length (mImagFFTs record) = n - 1)"

definition Worker_sized :: "Worker \<Rightarrow> bool" where
  "Worker_sized w =
    (length (mQueue w) = mHistoryLen w \<and>
     (\<forall>record \<in> set (mQueue w). Record_sized (mSpectrumSize w) record) \<and>
     2 \<le> mSpectrumSize w \<and> mSpectrumSize w < 2 ^ 31 \<and>
     1 \<le> mCenter w \<and> mCenter w < mHistoryLen w \<and> mHistoryLen w < 2 ^ 32 \<and>
     mBinLow w = 0 \<and> mBinHigh w = int (mSpectrumSize w) \<and>
     length (mFreqSmoothingScratch w) = mSpectrumSize w \<and>
     mFreqSmoothingBins w < 2 ^ 31)"

text \<open>The worker does not isolate the noise, its attenuation factor is in \<open>(0, 1]\<close> and
  its attack and release multipliers are at most 1.\<close>

definition reducing :: "Worker \<Rightarrow> bool" where
  "reducing w =
    (Worker.mNoiseReductionChoice w \<noteq> NRC_ISOLATE_NOISE \<and>
     0 < mNoiseAttenFactor w \<and> mNoiseAttenFactor w \<le> 1 \<and>
     mOneBlockAttack w \<le> 1 \<and> mOneBlockRelease w \<le> 1)"

definition reduce_inv :: "Worker \<Rightarrow> bool" where
  "reduce_inv w = (Worker_sized w \<and> reducing w \<and> gains_in_range w)"

text \<open>The reducing worker of the small settings at the start of a track, after
  \<^verbatim>\<open>ProcessOne\<close> has counted four samples of input.\<close>

definition started_worker :: Worker where
  "started_worker =
    (StartNewTrack (Worker_Worker small_settings 44100 example_fft))\<lparr>mInSampleCount := 4\<rparr>"

text \<open>Two states of a worker agree on the fields that are constant after the
  constructor and that the invariants read.\<close>

definition same_config :: "Worker \<Rightarrow> Worker \<Rightarrow> bool" where
  "same_config w' w =
    (mHistoryLen w' = mHistoryLen w \<and> mSpectrumSize w' = mSpectrumSize w \<and>
     mCenter w' = mCenter w \<and> mBinLow w' = mBinLow w \<and> mBinHigh w' = mBinHigh w \<and>
     mFreqSmoothingBins w' = mFreqSmoothingBins w \<and>
     Worker.mNoiseReductionChoice w' = Worker.mNoiseReductionChoice w \<and>
     mNoiseAttenFactor w' = mNoiseAttenFactor w \<and>
     mOneBlockAttack w' = mOneBlockAttack w \<and> mOneBlockRelease w' = mOneBlockRelease w)"

section \<open>Validation\<close>

lemma shl1u_pow: "0 \<le> n \<Longrightarrow> n < 32 \<Longrightarrow> shl1u n = 2 ^ nat n"
proof -
  assume "0 \<le> n" "n < 32"
  then have "nat n < 32" by simp
  then have "(2::nat) ^ nat n < 2 ^ 32" by (rule power_strict_increasing) simp
  then show ?thesis by (simp add: shl1u_def)
qed

lemma minSteps_ge_2:
  assumes "0 \<le> t" "t < WT_N_WINDOW_TYPES"
  shows "2 \<le> minSteps (windowTypesInfo ! nat t)"
proof -
  from assms have "t \<in> {0, 1, 2, 3, 4, 5, 6}" by (auto simp: enum_defs)
  then show ?thesis by (auto simp: windowTypesInfo_def)
qed

lemma pow2_gt_4: "(4 < (2::nat) ^ k) = (3 \<le> k)"
proof
  assume a: "4 < (2::nat) ^ k"
  show "3 \<le> k"
  proof (rule ccontr)
    assume "\<not> 3 \<le> k"
    then have "k \<le> 2" by simp
    then have "(2::nat) ^ k \<le> 2 ^ 2" by (intro power_increasing) simp_all
    with a show False by simp
  qed
next
  assume "3 \<le> k"
  then have "(2::nat) ^ 3 \<le> 2 ^ k" by (intro power_increasing) simp_all
  then show "4 < (2::nat) ^ k" by simp
qed

lemma pow2_in_2_4: "((2::nat) ^ k = 2 \<or> (2::nat) ^ k = 4) = (k = 1 \<or> k = 2)"
proof
  assume a: "(2::nat) ^ k = 2 \<or> (2::nat) ^ k = 4"
  have "k \<noteq> 0" using a by (auto intro: ccontr)
  moreover have "\<not> 3 \<le> k" using a pow2_gt_4 [of k] by auto
  ultimately show "k = 1 \<or> k = 2" by arith
next
  assume "k = 1 \<or> k = 2"
  then show "(2::nat) ^ k = 2 \<or> (2::nat) ^ k = 4" by auto
qed

text \<open>
  Claim C6. \<^verbatim>\<open>Settings::Validate\<close> rejects a configuration exactly when the steps per
  window are below the minimum of the window type, or exceed the window size, or the
  method is the median with more than four steps per window; in the disjunction the last
  condition can be replaced by \<open>1 + StepsPerWindow \<notin> {3, 5}\<close>; eight steps with the median
  method are rejected. The hypotheses are those under which the source is defined: the
  window type indexes the table and the shift that computes the steps is within the
  width of \<^verbatim>\<open>unsigned\<close>. Validation is a function of the settings alone.
\<close>

theorem Validate_rejects_iff:
  assumes "0 \<le> Settings.mWindowTypes s" and "Settings.mWindowTypes s < WT_N_WINDOW_TYPES"
    and "0 \<le> 1 + mStepsPerWindowChoice s" and "1 + mStepsPerWindowChoice s < 32"
  shows "(\<not> Validate s) =
           (StepsPerWindow s < minSteps (windowTypesInfo ! nat (Settings.mWindowTypes s)) \<or>
            StepsPerWindow s > WindowSize s \<or>
            (Settings.mMethod s = DM_MEDIAN \<and> StepsPerWindow s > 4))
       \<and> (\<not> Validate s) =
           (StepsPerWindow s < minSteps (windowTypesInfo ! nat (Settings.mWindowTypes s)) \<or>
            StepsPerWindow s > WindowSize s \<or>
            (Settings.mMethod s = DM_MEDIAN \<and> 1 + StepsPerWindow s \<notin> {3, 5}))
       \<and> (StepsPerWindow s = 8 \<and> Settings.mMethod s = DM_MEDIAN \<longrightarrow> \<not> Validate s)"
proof -
  let ?k = "nat (1 + mStepsPerWindowChoice s)"
  have S: "StepsPerWindow s = 2 ^ ?k"
    using assms(3,4) by (simp add: StepsPerWindow_def shl1u_pow)
  have m: "2 \<le> minSteps (windowTypesInfo ! nat (Settings.mWindowTypes s))"
    using assms(1,2) by (rule minSteps_ge_2)
  have first: "(\<not> Validate s) =
           (StepsPerWindow s < minSteps (windowTypesInfo ! nat (Settings.mWindowTypes s)) \<or>
            StepsPerWindow s > WindowSize s \<or>
            (Settings.mMethod s = DM_MEDIAN \<and> StepsPerWindow s > 4))"
    by (simp add: Validate_def)
  have "?k = 0 \<Longrightarrow> StepsPerWindow s < minSteps (windowTypesInfo ! nat (Settings.mWindowTypes s))"
    using m S by simp
  moreover have "(1 + StepsPerWindow s \<notin> {3, 5}) = (\<not> (?k = 1 \<or> ?k = 2))"
    using pow2_in_2_4 [of ?k] S by auto
  moreover have "(StepsPerWindow s > 4) = (3 \<le> ?k)"
    using pow2_gt_4 [of ?k] S by simp
  ultimately have second:
    "(StepsPerWindow s < minSteps (windowTypesInfo ! nat (Settings.mWindowTypes s)) \<or>
      StepsPerWindow s > WindowSize s \<or>
      (Settings.mMethod s = DM_MEDIAN \<and> StepsPerWindow s > 4)) =
     (StepsPerWindow s < minSteps (windowTypesInfo ! nat (Settings.mWindowTypes s)) \<or>
      StepsPerWindow s > WindowSize s \<or>
      (Settings.mMethod s = DM_MEDIAN \<and> 1 + StepsPerWindow s \<notin> {3, 5}))"
    by (cases "?k = 0") (simp, arith)
  have third: "StepsPerWindow s = 8 \<and> Settings.mMethod s = DM_MEDIAN \<longrightarrow> \<not> Validate s"
    by (simp add: Validate_def)
  from first second third show ?thesis by simp
qed

theorem Validate_rejects_iff_witness:
  "\<not> Validate ((PrefsIO_read NRC_REDUCE_NOISE)
       \<lparr>mStepsPerWindowChoice := 2, Settings.mMethod := DM_MEDIAN\<rparr>)"
  using Validate_rejects_iff
    [of "(PrefsIO_read NRC_REDUCE_NOISE)\<lparr>mStepsPerWindowChoice := 2, Settings.mMethod := DM_MEDIAN\<rparr>"]
  by (simp add: PrefsIO_read_def enum_defs StepsPerWindow_def shl1u_def)

section \<open>The constructor of the worker\<close>

lemma StepsPerWindow_pow:
  "0 \<le> 1 + mStepsPerWindowChoice s \<Longrightarrow> 1 + mStepsPerWindowChoice s < 32 \<Longrightarrow>
   StepsPerWindow s = 2 ^ nat (1 + mStepsPerWindowChoice s)"
  by (simp add: StepsPerWindow_def shl1u_pow)

lemma StepsPerWindow_bounds:
  assumes "0 \<le> 1 + mStepsPerWindowChoice s" "1 + mStepsPerWindowChoice s < 32"
  shows "1 \<le> StepsPerWindow s" and "StepsPerWindow s \<le> 2 ^ 31"
proof -
  have S: "StepsPerWindow s = 2 ^ nat (1 + mStepsPerWindowChoice s)"
    using assms by (rule StepsPerWindow_pow)
  show "1 \<le> StepsPerWindow s" unfolding S by simp
  have "nat (1 + mStepsPerWindowChoice s) \<le> 31" using assms by simp
  then have "(2::nat) ^ nat (1 + mStepsPerWindowChoice s) \<le> 2 ^ 31"
    by (intro power_increasing) simp_all
  then show "StepsPerWindow s \<le> 2 ^ 31" unfolding S .
qed

lemma ctor_mNWindowsToExamine_new:
  assumes "0 \<le> 1 + mStepsPerWindowChoice s" "1 + mStepsPerWindowChoice s < 32"
    and "Settings.mMethod s \<noteq> DM_OLD_METHOD"
  shows "ctor_mNWindowsToExamine s rate = 1 + StepsPerWindow s"
proof -
  have "StepsPerWindow s \<le> 2 ^ 31" using assms(1,2) by (rule StepsPerWindow_bounds)
  then have "1 + StepsPerWindow s < 2 ^ 32" by simp
  then show ?thesis using assms(3) by (simp add: ctor_mNWindowsToExamine_def)
qed

lemma nAttackBlocks_floor:
  assumes "0 \<le> x" and "1 + \<lfloor>x\<rfloor> < 2 ^ 32"
  shows "to_unsigned (1 + cast_int x) = nat (1 + \<lfloor>x\<rfloor>)"
proof -
  have "0 \<le> \<lfloor>x\<rfloor>" using assms(1) by simp
  then have "(1 + \<lfloor>x\<rfloor>) mod 2 ^ 32 = 1 + \<lfloor>x\<rfloor>" using assms(2) by simp
  then show ?thesis using assms(1) by (simp add: to_unsigned_def cast_int_def)
qed

lemma mHistoryLen_ctor: "mHistoryLen (Worker_Worker s rate fft) = ctor_mHistoryLen s rate"
  by (simp add: Worker_Worker_def)

text \<open>
  Claim C7, as amended. For settings of a new method whose attack time gives a block
  count within \<^verbatim>\<open>unsigned\<close>, the constructor sets \<open>NExamine = 1 + StepsPerWindow\<close>,
  \<open>Center = NExamine div 2\<close> and \<open>NAttackBlocks = 1 + \<lfloor>attackTime * rate / H\<rfloor>\<close>;
  the history length is \<open>max NExamine (Center + NAttackBlocks)\<close> when reducing, and
  \<open>1\<close> when profiling.
\<close>

theorem mHistoryLen_by_mode:
  assumes "0 \<le> 1 + mStepsPerWindowChoice s" and "1 + mStepsPerWindowChoice s < 32"
    and "Settings.mMethod s \<noteq> DM_OLD_METHOD"
    and "0 \<le> mAttackTime s * rate / real (WindowSize s div StepsPerWindow s)"
    and "int ((1 + StepsPerWindow s) div 2) + 1 +
           \<lfloor>mAttackTime s * rate / real (WindowSize s div StepsPerWindow s)\<rfloor> < 2 ^ 32"
  shows "mNWindowsToExamine (Worker_Worker s rate fft) = 1 + StepsPerWindow s
       \<and> mCenter (Worker_Worker s rate fft) = (1 + StepsPerWindow s) div 2
       \<and> nAttackBlocks s rate =
            nat (1 + \<lfloor>mAttackTime s * rate / real (WindowSize s div StepsPerWindow s)\<rfloor>)
       \<and> mHistoryLen (Worker_Worker s rate fft) =
           (if Settings.mDoProfile s then 1
            else max (mNWindowsToExamine (Worker_Worker s rate fft))
                   (mCenter (Worker_Worker s rate fft) + nAttackBlocks s rate))"
proof -
  let ?x = "mAttackTime s * rate / real (WindowSize s div StepsPerWindow s)"
  have N: "ctor_mNWindowsToExamine s rate = 1 + StepsPerWindow s"
    using assms(1-3) by (rule ctor_mNWindowsToExamine_new)
  have fl: "0 \<le> \<lfloor>?x\<rfloor>" using assms(4) by simp
  then have "1 + \<lfloor>?x\<rfloor> < 2 ^ 32" using assms(5) by linarith
  with assms(4) have A: "nAttackBlocks s rate = nat (1 + \<lfloor>?x\<rfloor>)"
    by (simp add: nAttackBlocks_def ctor_mStepSize_def nAttackBlocks_floor)
  have "int ((1 + StepsPerWindow s) div 2 + nat (1 + \<lfloor>?x\<rfloor>)) < 2 ^ 32"
    using assms(5) fl by simp
  then have "(1 + StepsPerWindow s) div 2 + nat (1 + \<lfloor>?x\<rfloor>) < 2 ^ 32"
    by (metis of_nat_less_numeral_power_cancel_iff)
  then have "(ctor_mCenter s rate + nAttackBlocks s rate) mod 2 ^ 32
             = ctor_mCenter s rate + nAttackBlocks s rate"
    by (simp add: ctor_mCenter_def N A)
  then show ?thesis
    using N A by (simp add: Worker_Worker_def ctor_mCenter_def ctor_mHistoryLen_def)
qed

lemma default_sizes:
  "WindowSize (PrefsIO_read c) = 2048" "StepsPerWindow (PrefsIO_read c) = 4"
  by (simp_all add: WindowSize_def StepsPerWindow_def shl1u_def PrefsIO_read_def enum_defs)

lemma reduce_sizes:
  "WindowSize reduce_settings = 2048" "StepsPerWindow reduce_settings = 4"
  by (simp_all add: reduce_settings_def WindowSize_def StepsPerWindow_def shl1u_def PrefsIO_read_def enum_defs)

lemma reduce_fields:
  "mStepsPerWindowChoice reduce_settings = 1" "Settings.mMethod reduce_settings = 1"
  "mAttackTime reduce_settings = 2 / 100" "Settings.mDoProfile reduce_settings = False"
  "mNoiseGain reduce_settings = 12" "mWindowSizeChoice reduce_settings = 8"
  "Settings.mWindowTypes reduce_settings = 2" "mReleaseTime reduce_settings = 10 / 100"
  "mFreqSmoothingBands reduce_settings = 3" "Settings.mNoiseReductionChoice reduce_settings = 0"
  "Settings.mNewSensitivity reduce_settings = 6"
  by (simp_all add: reduce_settings_def PrefsIO_read_def enum_defs)

theorem mHistoryLen_by_mode_witness:
  "mHistoryLen (Worker_Worker reduce_settings 44100 example_fft) = 5"
  using mHistoryLen_by_mode [of reduce_settings 44100 example_fft]
  by (simp add: reduce_sizes reduce_fields enum_defs)

text \<open>With the default settings in profile mode the history has one record, while
  five windows would be examined.\<close>

theorem mHistoryLen_profile_counterexample:
  "Validate (PrefsIO_read NRC_REDUCE_NOISE) \<and>
   \<not> (mHistoryLen (Worker_Worker (PrefsIO_read NRC_REDUCE_NOISE) 44100 example_fft)
        \<ge> max (mNWindowsToExamine (Worker_Worker (PrefsIO_read NRC_REDUCE_NOISE) 44100 example_fft))
              (mCenter (Worker_Worker (PrefsIO_read NRC_REDUCE_NOISE) 44100 example_fft)
               + nAttackBlocks (PrefsIO_read NRC_REDUCE_NOISE) 44100))"
  apply (simp add: Worker_Worker_def ctor_mHistoryLen_def ctor_mNWindowsToExamine_def default_sizes Validate_def)
  apply (simp add: PrefsIO_read_def enum_defs windowTypesInfo_def)
  done

lemma DB_TO_LINEAR_pos: "0 < DB_TO_LINEAR x"
  by (simp add: DB_TO_LINEAR_def)

lemma DB_TO_LINEAR_lt_1: "x < 0 \<Longrightarrow> DB_TO_LINEAR x < 1"
proof -
  assume "x < 0"
  then have "x / 20 < 0" by simp
  then have "(10::real) powr (x / 20) < 10 powr 0" by (subst powr_less_cancel_iff) simp_all
  then show ?thesis by (simp add: DB_TO_LINEAR_def)
qed

lemma DB_TO_LINEAR_le_1: "x \<le> 0 \<Longrightarrow> DB_TO_LINEAR x \<le> 1"
proof -
  assume "x \<le> 0"
  then have "x / 20 \<le> 0" by simp
  then have "(10::real) powr (x / 20) \<le> 10 powr 0" by (subst powr_le_cancel_iff) simp_all
  then show ?thesis by (simp add: DB_TO_LINEAR_def)
qed

lemma DB_TO_LINEAR_le_1_iff: "(DB_TO_LINEAR x \<le> 1) = (x \<le> 0)"
proof -
  have "((10::real) powr (x / 20) \<le> 10 powr 0) = (x / 20 \<le> 0)"
    by (subst powr_le_cancel_iff) simp_all
  then show ?thesis by (simp add: DB_TO_LINEAR_def)
qed

lemma attack_quotient_neg:
  assumes "0 < mNoiseGain s" and "1 \<le> n"
  shows "noiseGain s / real n < 0"
  using assms by (simp add: noiseGain_def divide_neg_pos)

text \<open>
  Claim C8, as amended. For a positive noise gain and at least one attack block, the
  attack multiplier \<open>mOneBlockAttack = DB_TO_LINEAR (- G / NA)\<close> lies strictly between
  0 and 1: the attack curve decays away from the centre.
\<close>

theorem mOneBlockAttack_below_1:
  assumes "0 < mNoiseGain s" and "1 \<le> nAttackBlocks s rate"
  shows "mOneBlockAttack (Worker_Worker s rate fft)
           = DB_TO_LINEAR (- mNoiseGain s / real (nAttackBlocks s rate))
       \<and> 0 < mOneBlockAttack (Worker_Worker s rate fft)
       \<and> mOneBlockAttack (Worker_Worker s rate fft) < 1"
proof -
  have a: "mOneBlockAttack (Worker_Worker s rate fft)
           = DB_TO_LINEAR (noiseGain s / real (nAttackBlocks s rate))"
    by (simp add: Worker_Worker_def)
  have "noiseGain s / real (nAttackBlocks s rate) < 0"
    using assms by (rule attack_quotient_neg)
  then have "DB_TO_LINEAR (noiseGain s / real (nAttackBlocks s rate)) < 1"
    by (rule DB_TO_LINEAR_lt_1)
  then show ?thesis using a by (simp add: DB_TO_LINEAR_pos noiseGain_def)
qed

lemma default_nAttackBlocks: "nAttackBlocks (PrefsIO_read c) 44100 = 2"
  apply (simp add: nAttackBlocks_def ctor_mStepSize_def default_sizes to_unsigned_def cast_int_def)
  apply (simp add: PrefsIO_read_def)
  done

lemma default_mNoiseGain: "mNoiseGain (PrefsIO_read c) = 12"
  by (simp add: PrefsIO_read_def)

theorem mOneBlockAttack_below_1_witness:
  "mOneBlockAttack (Worker_Worker (PrefsIO_read NRC_REDUCE_NOISE) 44100 example_fft) < 1"
  using mOneBlockAttack_below_1 [of "PrefsIO_read NRC_REDUCE_NOISE" 44100 example_fft]
  by (simp add: default_nAttackBlocks default_mNoiseGain)

text \<open>With the default settings (12 dB, two attack blocks) the multiplier is not
  above 1.\<close>

theorem mOneBlockAttack_counterexample:
  "0 < mNoiseGain (PrefsIO_read NRC_REDUCE_NOISE) \<and>
   1 \<le> nAttackBlocks (PrefsIO_read NRC_REDUCE_NOISE) 44100 \<and>
   \<not> 1 < mOneBlockAttack (Worker_Worker (PrefsIO_read NRC_REDUCE_NOISE) 44100 example_fft)"
proof -
  have "noiseGain (PrefsIO_read NRC_REDUCE_NOISE) / real (nAttackBlocks (PrefsIO_read NRC_REDUCE_NOISE) 44100) < 0"
    by (rule attack_quotient_neg) (simp_all add: default_nAttackBlocks default_mNoiseGain)
  then have "DB_TO_LINEAR (noiseGain (PrefsIO_read NRC_REDUCE_NOISE) /
               real (nAttackBlocks (PrefsIO_read NRC_REDUCE_NOISE) 44100)) < 1"
    by (rule DB_TO_LINEAR_lt_1)
  then have "\<not> 1 < mOneBlockAttack (Worker_Worker (PrefsIO_read NRC_REDUCE_NOISE) 44100 example_fft)"
    by (simp add: Worker_Worker_def)
  then show ?thesis by (simp add: default_nAttackBlocks default_mNoiseGain)
qed

lemma WindowSize_pos:
  assumes "0 \<le> 3 + mWindowSizeChoice s" "3 + mWindowSizeChoice s < 32"
  shows "0 < WindowSize s"
  using assms by (simp add: WindowSize_def shl1u_pow)

lemma length_ctor_mInWindow:
  "length (ctor_mInWindow s) =
     (if Settings.mWindowTypes s = WT_RECTANGULAR_HANN then 0 else WindowSize s)"
  by (simp add: ctor_mInWindow_def Let_def)

lemma ctor_mInWindow_nth:
  assumes "Settings.mWindowTypes s \<noteq> WT_RECTANGULAR_HANN" and "i < WindowSize s"
  shows "ctor_mInWindow s ! i =
    (if Settings.mWindowTypes s = WT_HAMMING_RECTANGULAR \<or>
        Settings.mWindowTypes s = WT_HANN_RECTANGULAR then multiplier s else 1) *
    (inCoefficients (windowTypesInfo ! nat (Settings.mWindowTypes s)) ! 0
     + inCoefficients (windowTypesInfo ! nat (Settings.mWindowTypes s)) ! 1
         * cos (2 * pi * real i / real (WindowSize s))
     + inCoefficients (windowTypesInfo ! nat (Settings.mWindowTypes s)) ! 2
         * cos (4 * pi * real i / real (WindowSize s)))"
  using assms by (simp add: ctor_mInWindow_def Let_def)

text \<open>
  Claim C9, as amended. The analysis window is empty exactly for the window types with a
  rectangular analysis window (\<^verbatim>\<open>WT_RECTANGULAR_HANN\<close>); otherwise its entry \<open>i\<close> is
  the cosine polynomial of the input coefficients, multiplied by \<open>M = 1 / (K * S)\<close>
  when the synthesis window is rectangular (\<^verbatim>\<open>WT_HANN_RECTANGULAR\<close>,
  \<^verbatim>\<open>WT_HAMMING_RECTANGULAR\<close>) and by 1 for the other types.
\<close>

theorem mInWindow_scaling:
  assumes "0 \<le> 3 + mWindowSizeChoice s" and "3 + mWindowSizeChoice s < 32"
    and "i < WindowSize s"
  shows "(mInWindow (Worker_Worker s rate fft) = []) =
           (Settings.mWindowTypes s = WT_RECTANGULAR_HANN)
       \<and> (Settings.mWindowTypes s \<noteq> WT_RECTANGULAR_HANN \<longrightarrow>
            mInWindow (Worker_Worker s rate fft) ! i =
              (if Settings.mWindowTypes s = WT_HAMMING_RECTANGULAR \<or>
                  Settings.mWindowTypes s = WT_HANN_RECTANGULAR
               then 1 / (productConstantTerm (windowTypesInfo ! nat (Settings.mWindowTypes s))
                          * real (StepsPerWindow s))
               else 1) *
              (inCoefficients (windowTypesInfo ! nat (Settings.mWindowTypes s)) ! 0
               + inCoefficients (windowTypesInfo ! nat (Settings.mWindowTypes s)) ! 1
                   * cos (2 * pi * real i / real (WindowSize s))
               + inCoefficients (windowTypesInfo ! nat (Settings.mWindowTypes s)) ! 2
                   * cos (4 * pi * real i / real (WindowSize s))))"
proof -
  have w: "mInWindow (Worker_Worker s rate fft) = ctor_mInWindow s"
    by (simp add: Worker_Worker_def)
  have "0 < WindowSize s" using assms(1,2) by (rule WindowSize_pos)
  then have "(ctor_mInWindow s = []) = (Settings.mWindowTypes s = WT_RECTANGULAR_HANN)"
    using length_ctor_mInWindow [of s] by (metis length_0_conv less_numeral_extra(3))
  then show ?thesis
    unfolding w using ctor_mInWindow_nth [of s i] assms(3)
    by (simp add: multiplier_def constantTerm_def)
qed

lemma hamming_sizes:
  "WindowSize hamming_settings = 2048" "StepsPerWindow hamming_settings = 4"
  by (simp_all add: hamming_settings_def WindowSize_def StepsPerWindow_def shl1u_def PrefsIO_read_def enum_defs)

lemma hamming_info:
  "Settings.mWindowTypes hamming_settings = 4"
  "windowTypesInfo ! 4 = \<lparr>name = ''Hamming, none'', minSteps = 2,
        inCoefficients = [54 / 100, - (46 / 100), 0], outCoefficients = [1, 0, 0],
        productConstantTerm = 54 / 100\<rparr>"
  by (simp_all add: hamming_settings_def enum_defs windowTypesInfo_def)

theorem mInWindow_scaling_witness:
  "mInWindow (Worker_Worker hamming_settings 44100 example_fft) ! 0 = 1 / 27"
proof -
  have "0 \<le> 3 + mWindowSizeChoice hamming_settings" "3 + mWindowSizeChoice hamming_settings < 32"
    by (simp_all add: hamming_settings_def PrefsIO_read_def enum_defs)
  moreover have "0 < WindowSize hamming_settings" by (simp add: hamming_sizes)
  ultimately have "(mInWindow (Worker_Worker hamming_settings 44100 example_fft) = []) =
           (Settings.mWindowTypes hamming_settings = WT_RECTANGULAR_HANN)
       \<and> (Settings.mWindowTypes hamming_settings \<noteq> WT_RECTANGULAR_HANN \<longrightarrow>
            mInWindow (Worker_Worker hamming_settings 44100 example_fft) ! 0 =
              (if Settings.mWindowTypes hamming_settings = WT_HAMMING_RECTANGULAR \<or>
                  Settings.mWindowTypes hamming_settings = WT_HANN_RECTANGULAR
               then 1 / (productConstantTerm (windowTypesInfo ! nat (Settings.mWindowTypes hamming_settings))
                          * real (StepsPerWindow hamming_settings))
               else 1) *
              (inCoefficients (windowTypesInfo ! nat (Settings.mWindowTypes hamming_settings)) ! 0
               + inCoefficients (windowTypesInfo ! nat (Settings.mWindowTypes hamming_settings)) ! 1
                   * cos (2 * pi * real 0 / real (WindowSize hamming_settings))
               + inCoefficients (windowTypesInfo ! nat (Settings.mWindowTypes hamming_settings)) ! 2
                   * cos (4 * pi * real 0 / real (WindowSize hamming_settings))))"
    by (rule mInWindow_scaling)
  then show ?thesis
    by (simp add: hamming_sizes hamming_info enum_defs)
qed

text \<open>For ``Hamming, none'' with the default sizes, entry 0 is \<open>M * 0.08 = 1 / 27\<close>, not
  the unscaled \<open>0.08\<close>.\<close>

theorem mInWindow_unscaled_counterexample:
  "Validate hamming_settings \<and> mInWindow (Worker_Worker hamming_settings 44100 example_fft) \<noteq> [] \<and>
   mInWindow (Worker_Worker hamming_settings 44100 example_fft) ! 0 \<noteq>
     1 * (inCoefficients (windowTypesInfo ! nat (Settings.mWindowTypes hamming_settings)) ! 0
          + inCoefficients (windowTypesInfo ! nat (Settings.mWindowTypes hamming_settings)) ! 1
              * cos (2 * pi * real 0 / real (WindowSize hamming_settings))
          + inCoefficients (windowTypesInfo ! nat (Settings.mWindowTypes hamming_settings)) ! 2
              * cos (4 * pi * real 0 / real (WindowSize hamming_settings)))"
proof -
  have v: "Validate hamming_settings"
    by (simp add: Validate_def hamming_sizes hamming_info)
  have l: "length (mInWindow (Worker_Worker hamming_settings 44100 example_fft)) = 2048"
    by (simp add: Worker_Worker_def length_ctor_mInWindow hamming_sizes hamming_info enum_defs)
  have n: "mInWindow (Worker_Worker hamming_settings 44100 example_fft) ! 0 = 1 / 27"
    by (simp add: Worker_Worker_def ctor_mInWindow_nth hamming_sizes hamming_info enum_defs
        multiplier_def constantTerm_def)
  from l have ne: "mInWindow (Worker_Worker hamming_settings 44100 example_fft) \<noteq> []" by auto
  show ?thesis using v ne n by (simp add: hamming_info)
qed

section \<open>The profile statistics\<close>

lemma add_loop_length:
  "length (foldl (\<lambda>pSum jj. pSum[jj := pSum ! jj + p ! jj]) xs js) = length xs"
  by (induction js arbitrary: xs) simp_all

lemma add_loop_nth:
  assumes "k \<le> length xs"
  shows "foldl (\<lambda>pSum jj. pSum[jj := pSum ! jj + p ! jj]) xs [0 ..< k] ! b =
           (if b < k then xs ! b + p ! b else xs ! b)"
  using assms
proof (induction k)
  case 0
  then show ?case by simp
next
  case (Suc k)
  then have k: "k < length xs" by simp
  then have "k < length (foldl (\<lambda>pSum jj. pSum[jj := pSum ! jj + p ! jj]) xs [0 ..< k])"
    by (simp add: add_loop_length)
  with Suc show ?case by (auto simp: nth_list_update less_Suc_eq)
qed

lemma to_int_id: "- (2 ^ 31) \<le> i \<Longrightarrow> i < 2 ^ 31 \<Longrightarrow> to_int i = i"
  by (simp add: to_int_def)

lemma GatherStatistics_fields:
  "mTrackWindows (GatherStatistics w st) = to_int (mTrackWindows st + 1)"
  "mTotalWindows (GatherStatistics w st) = mTotalWindows st"
  "mMeans (GatherStatistics w st) = mMeans st"
  "length (mSums (GatherStatistics w st)) = length (mSums st)"
  by (simp_all add: GatherStatistics_def Let_def add_loop_length)

lemma GatherStatistics_sum:
  assumes "mSpectrumSize w = length (mSums st)" and "b < length (mSums st)"
  shows "mSums (GatherStatistics w st) ! b = mSums st ! b + power_of w b"
  using assms by (simp add: GatherStatistics_def Let_def add_loop_nth power_of_def)

lemma gather_all:
  assumes "\<forall>w \<in> set ws. mSpectrumSize w = n" and "length (mSums st) = n" and "b < n"
    and "0 \<le> mTrackWindows st" and "mTrackWindows st + int (length ws) < 2 ^ 31"
  shows "mSums (foldl (\<lambda>st w. GatherStatistics w st) st ws) ! b
           = mSums st ! b + (\<Sum>w\<leftarrow>ws. power_of w b)
       \<and> length (mSums (foldl (\<lambda>st w. GatherStatistics w st) st ws)) = n
       \<and> mTrackWindows (foldl (\<lambda>st w. GatherStatistics w st) st ws)
           = mTrackWindows st + int (length ws)
       \<and> mTotalWindows (foldl (\<lambda>st w. GatherStatistics w st) st ws) = mTotalWindows st
       \<and> mMeans (foldl (\<lambda>st w. GatherStatistics w st) st ws) = mMeans st"
  using assms
proof (induction ws arbitrary: st)
  case Nil
  then show ?case by simp
next
  case (Cons w ws)
  have l: "length (mSums (GatherStatistics w st)) = n"
    using Cons.prems(2) by (simp add: GatherStatistics_fields)
  have s: "mSums (GatherStatistics w st) ! b = mSums st ! b + power_of w b"
    using Cons.prems by (simp add: GatherStatistics_sum)
  have t: "mTrackWindows (GatherStatistics w st) = mTrackWindows st + 1"
    using Cons.prems(4,5) by (simp add: GatherStatistics_fields to_int_id)
  have t0: "0 \<le> mTrackWindows (GatherStatistics w st)"
    unfolding t using Cons.prems(4) by simp
  have t1: "mTrackWindows (GatherStatistics w st) + int (length ws) < 2 ^ 31"
    unfolding t using Cons.prems(5) by simp
  have "\<forall>w \<in> set ws. mSpectrumSize w = n" using Cons.prems(1) by simp
  from Cons.IH [OF this l Cons.prems(3) t0 t1] s t show ?case
    by (simp add: GatherStatistics_fields)
qed

lemma finish_loop_length:
  "length (fst (foldl (FinishTrackStatistics_loop m d) (ms, ss) js)) = length ms
   \<and> length (snd (foldl (FinishTrackStatistics_loop m d) (ms, ss) js)) = length ss"
  by (induction js arbitrary: ms ss) (simp_all add: FinishTrackStatistics_loop_def)

lemma finish_loop_nth:
  assumes "k \<le> length ms" and "k \<le> length ss"
  shows "fst (foldl (FinishTrackStatistics_loop m d) (ms, ss) [0 ..< k]) ! b =
           (if b < k then (ms ! b * real_of_int m + ss ! b) / real_of_int d else ms ! b)
       \<and> snd (foldl (FinishTrackStatistics_loop m d) (ms, ss) [0 ..< k]) ! b =
           (if b < k then 0 else ss ! b)"
  using assms
proof (induction k arbitrary: b)
  case 0
  then show ?case by simp
next
  case (Suc k)
  obtain ms' ss' where p: "foldl (FinishTrackStatistics_loop m d) (ms, ss) [0 ..< k] = (ms', ss')"
    by (cases "foldl (FinishTrackStatistics_loop m d) (ms, ss) [0 ..< k]")
  have l: "length ms' = length ms" "length ss' = length ss"
    using finish_loop_length [of m d ms ss "[0 ..< k]"] p by simp_all
  have ih: "ms' ! c = (if c < k then (ms ! c * real_of_int m + ss ! c) / real_of_int d else ms ! c)"
      "ss' ! c = (if c < k then 0 else ss ! c)" for c
    using Suc.IH [of c] Suc.prems p by simp_all
  have k: "k < length ms'" "k < length ss'" using Suc.prems l by simp_all
  have step: "foldl (FinishTrackStatistics_loop m d) (ms, ss) [0 ..< Suc k] =
      (ms'[k := (ms' ! k * real_of_int m + ss' ! k) / real_of_int d], ss'[k := 0])"
    by (simp add: p) (simp add: FinishTrackStatistics_loop_def)
  show ?case
    unfolding step using k ih [of b] ih [of k]
    by (simp add: nth_list_update less_Suc_eq)
qed

text \<open>\<^verbatim>\<open>FinishTrackStatistics\<close> on a track with windows, whatever the counters hold: the
  divisor and the new total are the 32-bit sum.\<close>

lemma FinishTrackStatistics_windows:
  assumes "mTrackWindows st \<noteq> 0" and "length (mMeans st) \<le> length (mSums st)"
  shows "FinishTrackStatistics st =
    st\<lparr>mMeans := map (\<lambda>j. (mMeans st ! j * real_of_int (mTotalWindows st) + mSums st ! j)
                           / real_of_int (to_int (mTrackWindows st + mTotalWindows st)))
                   [0 ..< length (mMeans st)],
       mSums := map (\<lambda>j. if j < length (mMeans st) then 0 else mSums st ! j)
                  [0 ..< length (mSums st)],
       mTrackWindows := 0,
       mTotalWindows := to_int (mTrackWindows st + mTotalWindows st)\<rparr>"
proof -
  let ?r = "foldl (FinishTrackStatistics_loop (mTotalWindows st)
                (to_int (mTrackWindows st + mTotalWindows st)))
              (mMeans st, mSums st) [0 ..< length (mMeans st)]"
  have a: "fst ?r = map (\<lambda>j. (mMeans st ! j * real_of_int (mTotalWindows st) + mSums st ! j)
                           / real_of_int (to_int (mTrackWindows st + mTotalWindows st)))
                   [0 ..< length (mMeans st)]"
    using assms(2) finish_loop_length [of _ _ "mMeans st" "mSums st" "[0 ..< length (mMeans st)]"]
    by (intro nth_equalityI) (simp_all add: finish_loop_nth)
  have b: "snd ?r = map (\<lambda>j. if j < length (mMeans st) then 0 else mSums st ! j)
                  [0 ..< length (mSums st)]"
    using assms(2) finish_loop_length [of _ _ "mMeans st" "mSums st" "[0 ..< length (mMeans st)]"]
    by (intro nth_equalityI) (simp_all add: finish_loop_nth)
  show ?thesis
    using assms(1) a b by (simp add: FinishTrackStatistics_def Let_def split_beta)
qed

lemma FinishTrackStatistics_no_windows:
  assumes "mTrackWindows st = 0"
  shows "FinishTrackStatistics st =
           st\<lparr>mTrackWindows := 0, mTotalWindows := to_int (mTotalWindows st)\<rparr>"
  using assms by (simp add: FinishTrackStatistics_def Let_def)

lemma Statistics_Statistics_fields:
  "mTrackWindows (Statistics_Statistics n rate wt) = 0"
  "mTotalWindows (Statistics_Statistics n rate wt) = 0"
  "mSums (Statistics_Statistics n rate wt) = replicate n 0"
  "mMeans (Statistics_Statistics n rate wt) = replicate n 0"
  by (simp_all add: Statistics_Statistics_def)

lemma profile_source_step:
  assumes ws: "\<forall>w \<in> set ws. mSpectrumSize w = n"
    and st: "mTrackWindows st = 0" "mTotalWindows st = int N"
      "mSums st = replicate n 0" "length (mMeans st) = n"
    and b: "b < n"
    and mean: "mMeans st ! b = (if N = 0 then 0 else T / real N)"
    and T0: "N = 0 \<longrightarrow> T = 0"
    and fits: "N + length ws < 2 ^ 31"
  shows "mTrackWindows (profile_source st ws) = 0"
    and "mTotalWindows (profile_source st ws) = int (N + length ws)"
    and "mSums (profile_source st ws) = replicate n 0"
    and "length (mMeans (profile_source st ws)) = n"
    and "mMeans (profile_source st ws) ! b =
           (if N + length ws = 0 then 0
            else (T + (\<Sum>w\<leftarrow>ws. power_of w b)) / real (N + length ws))"
proof -
  let ?g = "foldl (\<lambda>st w. GatherStatistics w st) st ws"
  have ls: "length (mSums st) = n" using st(3) by simp
  have t0: "0 \<le> mTrackWindows st" using st(1) by simp
  have t1: "mTrackWindows st + int (length ws) < 2 ^ 31" using st(1) fits by simp
  have g: "mSums ?g ! c = mSums st ! c + (\<Sum>w\<leftarrow>ws. power_of w c)"
      "length (mSums ?g) = n"
      "mTrackWindows ?g = int (length ws)"
      "mTotalWindows ?g = int N" "mMeans ?g = mMeans st" if "c < n" for c
    using gather_all [OF ws ls that t0 t1] st(1,2) by simp_all
  have g': "length (mSums ?g) = n" "mTrackWindows ?g = int (length ws)"
      "mTotalWindows ?g = int N" "mMeans ?g = mMeans st"
    using g [OF b] by simp_all
  have "int (length ws) + int N < 2 ^ 31" using fits by simp
  then have sum: "to_int (mTrackWindows ?g + mTotalWindows ?g) = int (length ws) + int N"
    unfolding g'(2,3) by (simp add: to_int_id)
  have "int N < 2 ^ 31" using fits by simp
  then have tot: "to_int (mTotalWindows st) = int N"
    unfolding st(2) by (simp add: to_int_id)
  show "mTrackWindows (profile_source st ws) = 0"
    by (simp add: profile_source_def FinishTrackStatistics_def Let_def split_beta)
  have "mTotalWindows (profile_source st ws) = to_int (mTrackWindows ?g + mTotalWindows ?g)"
    by (simp add: profile_source_def FinishTrackStatistics_def Let_def split_beta)
  then show "mTotalWindows (profile_source st ws) = int (N + length ws)"
    unfolding sum by simp
  show "mSums (profile_source st ws) = replicate n 0"
  proof (cases "ws = []")
    case True
    then show ?thesis
      using st by (simp add: profile_source_def FinishTrackStatistics_no_windows)
  next
    case False
    then have "mTrackWindows ?g \<noteq> 0" using g' by simp
    moreover have "length (mMeans ?g) \<le> length (mSums ?g)" using g' st by simp
    ultimately have "mSums (profile_source st ws) =
        map (\<lambda>j. if j < length (mMeans ?g) then 0 else mSums ?g ! j) [0 ..< length (mSums ?g)]"
      by (simp add: profile_source_def FinishTrackStatistics_windows)
    also have "\<dots> = replicate n 0"
      using g' st(4) by (intro nth_equalityI) simp_all
    finally show ?thesis .
  qed
  show "length (mMeans (profile_source st ws)) = n"
  proof (cases "ws = []")
    case True
    then show ?thesis
      using st by (simp add: profile_source_def FinishTrackStatistics_no_windows)
  next
    case False
    then have "mTrackWindows ?g \<noteq> 0" using g' by simp
    moreover have "length (mMeans ?g) \<le> length (mSums ?g)" using g' st by simp
    ultimately show ?thesis
      using g' st(4) by (simp add: profile_source_def FinishTrackStatistics_windows)
  qed
  show "mMeans (profile_source st ws) ! b =
           (if N + length ws = 0 then 0
            else (T + (\<Sum>w\<leftarrow>ws. power_of w b)) / real (N + length ws))"
  proof (cases "ws = []")
    case True
    then show ?thesis
      using st mean by (simp add: profile_source_def FinishTrackStatistics_no_windows)
  next
    case False
    then have nz: "mTrackWindows ?g \<noteq> 0" using g' by simp
    have le: "length (mMeans ?g) \<le> length (mSums ?g)" using g' st by simp
    have "mMeans (profile_source st ws) ! b =
            (mMeans ?g ! b * real_of_int (mTotalWindows ?g) + mSums ?g ! b)
              / real_of_int (to_int (mTrackWindows ?g + mTotalWindows ?g))"
      using g' st b
      by (simp add: profile_source_def FinishTrackStatistics_windows [OF nz le])
    then have "mMeans (profile_source st ws) ! b =
            (mMeans st ! b * real N + (\<Sum>w\<leftarrow>ws. power_of w b)) / real (length ws + N)"
      unfolding sum using g' g(1) [OF b] st b by simp
    moreover have "mMeans st ! b * real N = T"
      using mean T0 by simp
    ultimately show ?thesis using False by (simp add: add.commute)
  qed
qed

lemma profile_sources_inv:
  assumes wss: "\<forall>ws \<in> set wss. \<forall>w \<in> set ws. mSpectrumSize w = n"
    and st: "mTrackWindows st = 0" "mTotalWindows st = int N"
      "mSums st = replicate n 0" "length (mMeans st) = n"
    and b: "b < n"
    and mean: "mMeans st ! b = (if N = 0 then 0 else T / real N)"
    and T0: "N = 0 \<longrightarrow> T = 0"
    and fits: "N + total_windows wss < 2 ^ 31"
  shows "mTrackWindows (profile_sources st wss) = 0
       \<and> mTotalWindows (profile_sources st wss) = int (N + total_windows wss)
       \<and> mSums (profile_sources st wss) = replicate n 0
       \<and> length (mMeans (profile_sources st wss)) = n
       \<and> mMeans (profile_sources st wss) ! b =
           (if N + total_windows wss = 0 then 0
            else (T + total_power wss b) / real (N + total_windows wss))"
  using assms
proof (induction wss arbitrary: st N T)
  case Nil
  then show ?case by (simp add: profile_sources_def total_windows_def total_power_def)
next
  case (Cons ws wss)
  have ws: "\<forall>w \<in> set ws. mSpectrumSize w = n" using Cons.prems(1) by simp
  have rest: "\<forall>ws \<in> set wss. \<forall>w \<in> set ws. mSpectrumSize w = n" using Cons.prems(1) by simp
  have tw: "total_windows (ws # wss) = length ws + total_windows wss"
    by (simp add: total_windows_def)
  have f1: "N + length ws < 2 ^ 31" using Cons.prems(9) unfolding tw by simp
  have f2: "(N + length ws) + total_windows wss < 2 ^ 31"
    using Cons.prems(9) unfolding tw by simp
  note step = profile_source_step [OF ws Cons.prems(2-5) b Cons.prems(7,8) f1]
  have T0': "N + length ws = 0 \<longrightarrow> T + (\<Sum>w\<leftarrow>ws. power_of w b) = 0"
    using Cons.prems(8) by simp
  from Cons.IH [OF rest step(1-4) b step(5) T0' f2]
  show ?case
    by (simp add: profile_sources_def total_windows_def total_power_def add.assoc)
qed

text \<open>
  Claim C2. Start from fresh statistics for \<open>n\<close> bands and run any sequence of profile
  sources, \<^verbatim>\<open>GatherStatistics\<close> once per window and \<^verbatim>\<open>FinishTrackStatistics\<close> at the
  end of each source, with fewer than \<open>2 ^ 31\<close> windows in all, so that the two \<^verbatim>\<open>int\<close>
  counters do not overflow. Then for every band \<open>b\<close> the mean is the sum of the power of
  all windows of all sources divided by the number of windows (and zero when there is no
  window at all), the sums are zero again, \<open>mTotalWindows\<close> is the number of windows and
  \<open>mTrackWindows\<close> is zero. One call of \<^verbatim>\<open>FinishTrackStatistics\<close> with \<open>n\<close> track
  windows and \<open>m\<close> total windows, where \<open>n + m\<close> is in the range of an \<^verbatim>\<open>int\<close>, sets
  every mean to \<open>(mean * m + sum) / (n + m)\<close>, zeroes the sums and sets the counters to
  \<open>n + m\<close> and \<open>0\<close>; when the track has no window, where the sums are zero already,
  only the counters are written.
\<close>

theorem profile_means_grand_mean:
  assumes "\<forall>ws \<in> set wss. \<forall>w \<in> set ws.
             mSpectrumSize w = n \<and> mQueue w \<noteq> [] \<and> length (mSpectrums (mQueue w ! 0)) = n"
    and "total_windows wss < 2 ^ 31"
    and "b < n"
  shows "mMeans (profile_sources (Statistics_Statistics n rate wt) wss) ! b =
           (if total_windows wss = 0 then 0
            else total_power wss b / real (total_windows wss))
       \<and> mSums (profile_sources (Statistics_Statistics n rate wt) wss) = replicate n 0
       \<and> mTotalWindows (profile_sources (Statistics_Statistics n rate wt) wss)
           = int (total_windows wss)
       \<and> mTrackWindows (profile_sources (Statistics_Statistics n rate wt) wss) = 0
       \<and> (- (2 ^ 31) \<le> mTrackWindows st + mTotalWindows st
            \<and> mTrackWindows st + mTotalWindows st < 2 ^ 31
            \<and> mTrackWindows st \<noteq> 0 \<and> length (mMeans st) = length (mSums st) \<longrightarrow>
            FinishTrackStatistics st =
              st\<lparr>mMeans := map (\<lambda>j. (mMeans st ! j * real_of_int (mTotalWindows st) + mSums st ! j)
                                     / real_of_int (mTrackWindows st + mTotalWindows st))
                             [0 ..< length (mMeans st)],
                 mSums := replicate (length (mSums st)) 0,
                 mTrackWindows := 0,
                 mTotalWindows := mTrackWindows st + mTotalWindows st\<rparr>)
       \<and> (- (2 ^ 31) \<le> mTrackWindows st + mTotalWindows st
            \<and> mTrackWindows st + mTotalWindows st < 2 ^ 31
            \<and> mTrackWindows st = 0 \<longrightarrow>
            FinishTrackStatistics st =
              st\<lparr>mTrackWindows := 0, mTotalWindows := mTrackWindows st + mTotalWindows st\<rparr>)"
proof -
  let ?st0 = "Statistics_Statistics n rate wt"
  have wss: "\<forall>ws \<in> set wss. \<forall>w \<in> set ws. mSpectrumSize w = n" using assms(1) by simp
  have fits: "0 + total_windows wss < 2 ^ 31" using assms(2) by simp
  have "mMeans ?st0 ! b = (if (0::nat) = 0 then 0 else 0 / real (0::nat))"
    using assms(3) by (simp add: Statistics_Statistics_fields)
  from profile_sources_inv [where st = ?st0 and N = 0 and T = 0, OF wss _ _ _ _ assms(3) this _ fits]
  have run: "mTrackWindows (profile_sources ?st0 wss) = 0
       \<and> mTotalWindows (profile_sources ?st0 wss) = int (total_windows wss)
       \<and> mSums (profile_sources ?st0 wss) = replicate n 0
       \<and> mMeans (profile_sources ?st0 wss) ! b =
           (if total_windows wss = 0 then 0
            else total_power wss b / real (total_windows wss))"
    by (simp add: Statistics_Statistics_fields)
  have fin: "- (2 ^ 31) \<le> mTrackWindows st + mTotalWindows st
            \<and> mTrackWindows st + mTotalWindows st < 2 ^ 31
            \<and> mTrackWindows st \<noteq> 0 \<and> length (mMeans st) = length (mSums st) \<longrightarrow>
            FinishTrackStatistics st =
              st\<lparr>mMeans := map (\<lambda>j. (mMeans st ! j * real_of_int (mTotalWindows st) + mSums st ! j)
                                     / real_of_int (mTrackWindows st + mTotalWindows st))
                             [0 ..< length (mMeans st)],
                 mSums := replicate (length (mSums st)) 0,
                 mTrackWindows := 0,
                 mTotalWindows := mTrackWindows st + mTotalWindows st\<rparr>"
  proof (intro impI, elim conjE)
    assume r: "- (2 ^ 31) \<le> mTrackWindows st + mTotalWindows st"
      "mTrackWindows st + mTotalWindows st < 2 ^ 31"
    assume a: "mTrackWindows st \<noteq> 0" "length (mMeans st) = length (mSums st)"
    have sum: "to_int (mTrackWindows st + mTotalWindows st) = mTrackWindows st + mTotalWindows st"
      using r by (rule to_int_id)
    have z: "map (\<lambda>j. if j < length (mMeans st) then 0 else mSums st ! j) [0 ..< length (mSums st)]
          = replicate (length (mSums st)) 0"
      using a(2) by (intro nth_equalityI) simp_all
    have le: "length (mMeans st) \<le> length (mSums st)" using a(2) by simp
    show "FinishTrackStatistics st =
              st\<lparr>mMeans := map (\<lambda>j. (mMeans st ! j * real_of_int (mTotalWindows st) + mSums st ! j)
                                     / real_of_int (mTrackWindows st + mTotalWindows st))
                             [0 ..< length (mMeans st)],
                 mSums := replicate (length (mSums st)) 0,
                 mTrackWindows := 0,
                 mTotalWindows := mTrackWindows st + mTotalWindows st\<rparr>"
      unfolding FinishTrackStatistics_windows [OF a(1) le] sum z ..
  qed
  have nowin: "- (2 ^ 31) \<le> mTrackWindows st + mTotalWindows st
            \<and> mTrackWindows st + mTotalWindows st < 2 ^ 31
            \<and> mTrackWindows st = 0 \<longrightarrow>
            FinishTrackStatistics st =
              st\<lparr>mTrackWindows := 0, mTotalWindows := mTrackWindows st + mTotalWindows st\<rparr>"
    by (simp add: FinishTrackStatistics_no_windows to_int_id)
  from run fin nowin show ?thesis by simp
qed

lemma small_sizes:
  "WindowSize small_settings = 8" "StepsPerWindow small_settings = 2"
  "WindowSize (small_settings\<lparr>Settings.mDoProfile := True\<rparr>) = 8"
  "StepsPerWindow (small_settings\<lparr>Settings.mDoProfile := True\<rparr>) = 2"
  by (simp_all add: small_settings_def WindowSize_def StepsPerWindow_def shl1u_def
      PrefsIO_read_def enum_defs)

lemma window_worker_fields:
  "mSpectrumSize (window_worker p) = 5"
  "mQueue (window_worker p) = [(Record_Record 5)\<lparr>mSpectrums := p\<rparr>]"
  by (simp_all add: window_worker_def Worker_Worker_def small_sizes)

theorem profile_means_grand_mean_witness:
  "mMeans (profile_sources (Statistics_Statistics 5 44100 WT_RECTANGULAR_HANN)
      [[window_worker [1, 0, 0, 0, 0]],
       [window_worker [3, 0, 0, 0, 0], window_worker [5, 0, 0, 0, 0]]]) ! 0 = 3
   \<and> FinishTrackStatistics
        \<lparr>mRate = 44100, mWindowSize = 2, mWindowTypes = WT_RECTANGULAR_HANN,
         mTotalWindows = 1, mTrackWindows = 2, mSums = [8, 2], mMeans = [1, 4]\<rparr>
     = \<lparr>mRate = 44100, mWindowSize = 2, mWindowTypes = WT_RECTANGULAR_HANN,
         mTotalWindows = 3, mTrackWindows = 0, mSums = [0, 0], mMeans = [3, 2]\<rparr>"
proof -
  let ?wss = "[[window_worker [1, 0, 0, 0, 0]],
          [window_worker [3, 0, 0, 0, 0], window_worker [5, 0, 0, 0, 0]]]"
  let ?st = "\<lparr>mRate = 44100, mWindowSize = 2, mWindowTypes = WT_RECTANGULAR_HANN,
         mTotalWindows = 1, mTrackWindows = 2, mSums = [8, 2], mMeans = [1, 4]\<rparr>"
  have sized: "\<forall>ws \<in> set ?wss. \<forall>w \<in> set ws.
      mSpectrumSize w = 5 \<and> mQueue w \<noteq> [] \<and> length (mSpectrums (mQueue w ! 0)) = 5"
    by (simp add: window_worker_fields)
  have tw: "total_windows ?wss = 3" by (simp add: total_windows_def)
  have fits: "total_windows ?wss < 2 ^ 31" unfolding tw by simp
  have tp: "total_power ?wss 0 = 9"
    by (simp add: total_power_def power_of_def window_worker_fields)
  have rng: "- (2 ^ 31) \<le> mTrackWindows ?st + mTotalWindows ?st
      \<and> mTrackWindows ?st + mTotalWindows ?st < 2 ^ 31
      \<and> mTrackWindows ?st \<noteq> 0 \<and> length (mMeans ?st) = length (mSums ?st)"
    by simp
  have band: "(0::nat) < 5" by simp
  note inst = profile_means_grand_mean
    [where wss = ?wss and n = 5 and b = 0 and rate = 44100 and wt = WT_RECTANGULAR_HANN
       and st = ?st, OF sized fits band]
  have mean: "mMeans (profile_sources (Statistics_Statistics 5 44100 WT_RECTANGULAR_HANN) ?wss) ! 0 = 3"
    using inst unfolding tw tp by simp
  have "FinishTrackStatistics ?st =
      ?st\<lparr>mMeans := map (\<lambda>j. (mMeans ?st ! j * real_of_int (mTotalWindows ?st) + mSums ?st ! j)
                                     / real_of_int (mTrackWindows ?st + mTotalWindows ?st))
                             [0 ..< length (mMeans ?st)],
                 mSums := replicate (length (mSums ?st)) 0,
                 mTrackWindows := 0,
                 mTotalWindows := mTrackWindows ?st + mTotalWindows ?st\<rparr>"
    using inst rng by blast
  then have fin: "FinishTrackStatistics ?st =
      \<lparr>mRate = 44100, mWindowSize = 2, mWindowTypes = WT_RECTANGULAR_HANN,
         mTotalWindows = 3, mTrackWindows = 0, mSums = [0, 0], mMeans = [3, 2]\<rparr>"
    by (simp add: upt_rec numeral_2_eq_2)
  from mean fin show ?thesis by (rule conjI)
qed

text \<open>Outside that range the sum of the two counters wraps: with \<open>2 ^ 31 - 1\<close> windows
  so far and one window in the track, the new total is \<open>- 2 ^ 31\<close>.\<close>

lemma FinishTrackStatistics_wraps:
  "mTotalWindows (FinishTrackStatistics
      \<lparr>mRate = 44100, mWindowSize = 2, mWindowTypes = WT_RECTANGULAR_HANN,
       mTotalWindows = 2147483647, mTrackWindows = 1, mSums = [1, 1], mMeans = [1, 1]\<rparr>)
     = - 2147483648"
  by (simp add: FinishTrackStatistics_def Let_def to_int_def split_beta)

section \<open>The classifier\<close>

lemma count_above_Cons:
  "count_above t (x # xs) = (if t < x then Suc (count_above t xs) else count_above t xs)"
  by (simp add: count_above_def)

lemma count_above_Nil: "count_above t [] = 0"
  by (simp add: count_above_def)

lemma count_above_sorted: "count_above t (rev (sort xs)) = count_above t xs"
  by (simp add: count_above_def rev_filter [symmetric] filter_sort)

lemma Classify_second_count:
  assumes "s \<le> g"
  shows "(snd (foldl (\<lambda>(greatest, second) power.
             if power \<ge> greatest then (power, greatest)
             else if power \<ge> second then (greatest, power)
             else (greatest, second)) (g, s) xs) \<le> t)
         = (count_above t (g # s # xs) \<le> 1)"
  using assms
proof (induction xs arbitrary: g s)
  case Nil
  then show ?case by (auto simp: count_above_Cons count_above_Nil)
next
  case (Cons x xs)
  show ?case
  proof (cases "g \<le> x")
    case True
    then have "(snd (foldl (\<lambda>(greatest, second) power.
             if power \<ge> greatest then (power, greatest)
             else if power \<ge> second then (greatest, power)
             else (greatest, second)) (g, s) (x # xs)) \<le> t)
        = (count_above t (x # g # xs) \<le> 1)"
      using Cons.IH [of g x] by simp
    also have "\<dots> = (count_above t (g # s # x # xs) \<le> 1)"
      using True Cons.prems by (auto simp: count_above_Cons)
    finally show ?thesis .
  next
    case False
    show ?thesis
    proof (cases "s \<le> x")
      case True
      then have "(snd (foldl (\<lambda>(greatest, second) power.
             if power \<ge> greatest then (power, greatest)
             else if power \<ge> second then (greatest, power)
             else (greatest, second)) (g, s) (x # xs)) \<le> t)
        = (count_above t (g # x # xs) \<le> 1)"
        using Cons.IH [of x g] False by simp
      also have "\<dots> = (count_above t (g # s # x # xs) \<le> 1)"
        using True False Cons.prems by (auto simp: count_above_Cons)
      finally show ?thesis .
    next
      case nle: False
      then have "(snd (foldl (\<lambda>(greatest, second) power.
             if power \<ge> greatest then (power, greatest)
             else if power \<ge> second then (greatest, power)
             else (greatest, second)) (g, s) (x # xs)) \<le> t)
        = (count_above t (g # s # xs) \<le> 1)"
        using Cons.IH [of s g] False Cons.prems by simp
      also have "\<dots> = (count_above t (g # s # x # xs) \<le> 1)"
        using nle False Cons.prems by (auto simp: count_above_Cons)
      finally show ?thesis .
    qed
  qed
qed

lemma second_largest_count:
  assumes "2 \<le> length xs"
  shows "(second_largest xs \<le> t) = (count_above t xs \<le> 1)"
proof -
  let ?d = "rev (sort xs)"
  have len: "length ?d = length xs" by simp
  then obtain a b rest where d: "?d = a # b # rest"
    using assms by (metis Suc_le_length_iff numeral_2_eq_2)
  have "sorted_wrt (\<lambda>x y. y \<le> x) ?d"
    by (simp add: sorted_wrt_rev)
  then have ord: "b \<le> a" "\<forall>x \<in> set rest. x \<le> b"
    unfolding d by auto
  have c: "count_above t xs = count_above t (a # b # rest)"
    unfolding d [symmetric] by (simp add: count_above_sorted)
  have rest: "b \<le> t \<Longrightarrow> count_above t rest = 0"
    using ord(2) by (auto simp: count_above_def filter_empty_conv)
  have "(b \<le> t) = (count_above t (a # b # rest) \<le> 1)"
    using ord(1) rest by (auto simp: count_above_Cons)
  then show ?thesis
    by (simp add: second_largest_def d c)
qed

lemma count_above_zeros:
  assumes "2 \<le> length xs" and "\<forall>x \<in> set xs. 0 \<le> x"
  shows "(count_above t (0 # 0 # xs) \<le> 1) = (count_above t xs \<le> 1)"
proof (cases "t < 0")
  case True
  then have "filter (\<lambda>x. t < x) xs = xs" using assms(2) by (auto simp: filter_id_conv)
  then have "count_above t xs = length xs" by (simp add: count_above_def)
  then show ?thesis using True assms(1) by (simp add: count_above_Cons)
next
  case False
  then show ?thesis by (simp add: count_above_Cons)
qed

lemma Classify_second_is_second_largest:
  assumes "2 \<le> length xs" and "\<forall>x \<in> set xs. 0 \<le> x"
  shows "(snd (Classify_second xs) \<le> t) = (second_largest xs \<le> t)"
proof -
  have "(snd (Classify_second xs) \<le> t) = (count_above t (0 # 0 # xs) \<le> 1)"
    unfolding Classify_second_def by (rule Classify_second_count) simp
  also have "\<dots> = (count_above t xs \<le> 1)"
    using assms by (rule count_above_zeros)
  also have "\<dots> = (second_largest xs \<le> t)"
    using assms(1) by (rule second_largest_count [symmetric])
  finally show ?thesis .
qed

text \<open>
  Claim C3. With the method \<^verbatim>\<open>DM_SECOND_GREATEST\<close>, for every band and every state of
  the queue whose examined powers are not negative, \<^verbatim>\<open>Classify\<close> answers ``noise''
  exactly when the second-largest of the \<open>mNWindowsToExamine\<close> powers of the band is at
  most the threshold, which is the sensitivity of the settings times \<open>ln 10\<close> times the
  mean of the band. At least two windows are examined (\<open>1 + StepsPerWindow\<close> by
  construction).
\<close>

theorem Classify_second_greatest:
  assumes "Worker.mMethod w = DM_SECOND_GREATEST"
    and "2 \<le> mNWindowsToExamine w"
    and "mNWindowsToExamine w \<le> length (mQueue w)"
    and "\<forall>ii < mNWindowsToExamine w.
           band < length (mSpectrums (mQueue w ! ii)) \<and> 0 \<le> mSpectrums (mQueue w ! ii) ! band"
    and "Worker.mNewSensitivity w = Worker.mNewSensitivity (Worker_Worker s rate fft)"
  shows "Classify w statistics band =
           (second_largest (map (\<lambda>ii. mSpectrums (mQueue w ! ii) ! band)
                              [0 ..< mNWindowsToExamine w])
              \<le> Settings.mNewSensitivity s * ln 10 * mMeans statistics ! band)"
proof -
  have len: "2 \<le> length (examined w band)"
    using assms(2) by (simp add: examined_def)
  have nonneg: "\<forall>x \<in> set (examined w band). 0 \<le> x"
    using assms(4) by (auto simp: examined_def)
  have sens: "Worker.mNewSensitivity w = Settings.mNewSensitivity s * ln 10"
    using assms(5) by (simp add: Worker_Worker_def)
  have "Classify w statistics band = secondGreatest w statistics band"
    using assms(1) by (simp add: Classify_def enum_defs)
  also have "\<dots> = (second_largest (examined w band)
                      \<le> Worker.mNewSensitivity w * mMeans statistics ! band)"
    unfolding secondGreatest_def using len nonneg by (rule Classify_second_is_second_largest)
  finally show ?thesis by (simp add: examined_def sens)
qed

lemma small_fields:
  "Settings.mMethod small_settings = 1" "Settings.mDoProfile small_settings = False"
  "mAttackTime small_settings = 0" "mReleaseTime small_settings = 0"
  "mNoiseGain small_settings = 20" "mWindowSizeChoice small_settings = 0"
  "mStepsPerWindowChoice small_settings = 0"
  "Settings.mWindowTypes small_settings = 0" "mFreqSmoothingBands small_settings = 3"
  "Settings.mNoiseReductionChoice small_settings = 0"
  "Settings.mNewSensitivity small_settings = 6"
  by (simp_all add: small_settings_def PrefsIO_read_def enum_defs)

lemma small_ctor:
  "ctor_mNWindowsToExamine small_settings 44100 = 3"
  "ctor_mCenter small_settings 44100 = 1"
  "nAttackBlocks small_settings 44100 = 1"
  "nReleaseBlocks small_settings 44100 = 1"
  "ctor_mHistoryLen small_settings 44100 = 3"
  "ctor_mStepSize small_settings = 4"
  by (simp_all add: ctor_mNWindowsToExamine_def ctor_mCenter_def nAttackBlocks_def
      nReleaseBlocks_def ctor_mHistoryLen_def ctor_mStepSize_def small_sizes small_fields
      enum_defs to_unsigned_def cast_int_def)

lemma ring_worker_fields:
  "Worker.mMethod (ring_worker p0 p1 p2 g0 g1 g2) = 1"
  "mNWindowsToExamine (ring_worker p0 p1 p2 g0 g1 g2) = 3"
  "mCenter (ring_worker p0 p1 p2 g0 g1 g2) = 1"
  "mHistoryLen (ring_worker p0 p1 p2 g0 g1 g2) = 3"
  "mSpectrumSize (ring_worker p0 p1 p2 g0 g1 g2) = 5"
  "Worker.mNewSensitivity (ring_worker p0 p1 p2 g0 g1 g2) = 6 * ln 10"
  "mQueue (ring_worker p0 p1 p2 g0 g1 g2) =
     [(Record_Record 5)\<lparr>mSpectrums := p0, mGains := g0\<rparr>,
      (Record_Record 5)\<lparr>mSpectrums := p1, mGains := g1\<rparr>,
      (Record_Record 5)\<lparr>mSpectrums := p2, mGains := g2\<rparr>]"
  by (simp_all add: ring_worker_def Worker_Worker_def small_sizes small_fields small_ctor)

lemma all_less_3: "(\<forall>i < Suc (Suc (Suc 0)). P i) = (P 0 \<and> P (Suc 0) \<and> P (Suc (Suc 0)))"
  by (auto simp: less_Suc_eq)

theorem Classify_second_greatest_witness:
  "\<not> Classify (ring_worker [7, 0, 0, 0, 0] [5, 0, 0, 0, 0] [0, 0, 0, 0, 0] [] [] [])
       (Statistics_Statistics 5 44100 WT_RECTANGULAR_HANN) 0"
proof -
  let ?w = "ring_worker [7, 0, 0, 0, 0] [5, 0, 0, 0, 0] [0, 0, 0, 0, 0] [] [] []"
  let ?st = "Statistics_Statistics 5 44100 WT_RECTANGULAR_HANN"
  have 1: "Worker.mMethod ?w = DM_SECOND_GREATEST"
    by (simp add: ring_worker_fields enum_defs)
  have 2: "2 \<le> mNWindowsToExamine ?w" and 3: "mNWindowsToExamine ?w \<le> length (mQueue ?w)"
    by (simp_all add: ring_worker_fields)
  have 4: "\<forall>ii < mNWindowsToExamine ?w.
      0 < length (mSpectrums (mQueue ?w ! ii)) \<and> 0 \<le> mSpectrums (mQueue ?w ! ii) ! 0"
    by (simp add: ring_worker_fields numeral_3_eq_3 all_less_3)
  have 5: "Worker.mNewSensitivity ?w =
      Worker.mNewSensitivity (Worker_Worker small_settings 44100 example_fft)"
    by (simp add: ring_worker_def)
  have "second_largest (map (\<lambda>ii. mSpectrums (mQueue ?w ! ii) ! 0) [0 ..< mNWindowsToExamine ?w]) = 5"
    by (simp add: ring_worker_fields second_largest_def upt_rec numeral_3_eq_3)
  moreover have "mMeans ?st ! 0 = 0"
    by (simp add: Statistics_Statistics_def)
  ultimately show ?thesis
    using Classify_second_greatest [OF 1 2 3 4 5, of ?st] by simp
qed

section \<open>Frequency smoothing\<close>

lemma foldl_update_length:
  "length (foldl (\<lambda>xs i. xs[i := f i xs]) xs js) = length xs"
  by (induction js arbitrary: xs) simp_all

lemma foldl_update_nth:
  assumes "k \<le> length xs"
  shows "foldl (\<lambda>xs i. xs[i := f i (xs ! i)]) xs [0 ..< k] ! b =
           (if b < k then f b (xs ! b) else xs ! b)"
  using assms
proof (induction k arbitrary: b)
  case 0
  then show ?case by simp
next
  case (Suc k)
  let ?r = "foldl (\<lambda>xs i. xs[i := f i (xs ! i)]) xs [0 ..< k]"
  have l: "length ?r = length xs"
    by (rule foldl_update_length [where f = "\<lambda>i xs. f i (xs ! i)"])
  have ih: "?r ! c = (if c < k then f c (xs ! c) else xs ! c)" for c
    using Suc.IH [of c] Suc.prems by simp
  have k: "k < length ?r" using Suc.prems l by simp
  show ?case
    using k ih [of b] ih [of k] by (simp add: nth_list_update less_Suc_eq)
qed

lemma foldl_add_sum_list:
  "foldl (\<lambda>acc jj. acc + h jj) a js = a + sum_list (map h js)"
  by (induction js arbitrary: a) (simp_all add: add.assoc)

lemma map_nat_upto: "map nat [int a .. int b] = [a ..< Suc b]"
proof (rule nth_equalityI)
  show "length (map nat [int a .. int b]) = length [a ..< Suc b]"
    by (simp add: Suc_diff_le) arith
next
  fix k assume "k < length (map nat [int a .. int b])"
  then have k: "int a + int k \<le> int b" by simp
  then have "[int a .. int b] ! k = int a + int k" by (rule nth_upto)
  moreover have "a + k < Suc b" using k by simp
  moreover have "[a ..< Suc b] ! k = a + k"
    using \<open>a + k < Suc b\<close> by (rule nth_upt)
  ultimately show "map nat [int a .. int b] ! k = [a ..< Suc b] ! k"
    using \<open>k < length (map nat [int a .. int b])\<close> by (simp add: nat_add_distrib del: upt_Suc)
qed

lemma sum_list_upto_window:
  "sum_list (map (\<lambda>jj. h (nat jj)) [int a .. int b]) = (\<Sum>j = a .. b. h j)"
proof -
  have "sum_list (map (\<lambda>jj. h (nat jj)) [int a .. int b]) = sum_list (map h (map nat [int a .. int b]))"
    by (simp add: comp_def)
  also have "\<dots> = sum_list (map h [a ..< Suc b])" by (simp only: map_nat_upto)
  also have "\<dots> = (\<Sum>j = a .. b. h j)"
    by (simp only: interv_sum_list_conv_sum_set_nat set_upt atLeastLessThanSuc_atLeastAtMost)
  finally show ?thesis .
qed

lemma to_int_small: "0 \<le> i \<Longrightarrow> i < 2 ^ 31 \<Longrightarrow> to_int i = i"
  by (simp add: to_int_def)

lemma sub_size_t_small: "b \<le> a \<Longrightarrow> a < 2 ^ 64 \<Longrightarrow> sub_size_t a b = a - b"
proof -
  assume a: "b \<le> a" "a < 2 ^ 64"
  then have e: "int a - int b = int (a - b)" by simp
  have "a - b < 2 ^ 64" using a by simp
  then have "int (a - b) mod 2 ^ 64 = int (a - b)" by simp
  then show ?thesis unfolding sub_size_t_def e by simp
qed

lemma sub_unsigned_small: "b \<le> a \<Longrightarrow> a < 2 ^ 32 \<Longrightarrow> sub_unsigned a b = a - b"
proof -
  assume a: "b \<le> a" "a < 2 ^ 32"
  then have e: "int a - int b = int (a - b)" by simp
  have "a - b < 2 ^ 32" using a by simp
  then have "int (a - b) mod 2 ^ 32 = int (a - b)" by simp
  then show ?thesis unfolding sub_unsigned_def e by simp
qed

lemma add_size_t_small: "a + b < 2 ^ 64 \<Longrightarrow> add_size_t a b = a + b"
  by (simp add: add_size_t_def)

lemma smoothing_bounds:
  assumes "1 \<le> mSpectrumSize w" "mSpectrumSize w < 2 ^ 31" "mFreqSmoothingBins w < 2 ^ 31"
    and "ii < mSpectrumSize w"
  shows "smoothing_j0 w ii = int (nat (max 0 (int ii - int (mFreqSmoothingBins w))))"
    and "smoothing_j1 w ii = int (min (mSpectrumSize w - 1) (ii + mFreqSmoothingBins w))"
proof -
  have "to_int (int (mFreqSmoothingBins w)) = int (mFreqSmoothingBins w)"
    using assms(3) by (intro to_int_small) simp_all
  then show "smoothing_j0 w ii = int (nat (max 0 (int ii - int (mFreqSmoothingBins w))))"
    by (simp add: smoothing_j0_def)
  have "(2::nat) ^ 31 < 2 ^ 64" by simp
  with assms(2) have S: "mSpectrumSize w < 2 ^ 64" by (rule less_trans)
  have s1: "sub_size_t (mSpectrumSize w) 1 = mSpectrumSize w - 1"
    using assms(1) S by (rule sub_size_t_small)
  have "ii + mFreqSmoothingBins w < 2 ^ 31 + 2 ^ 31" using assms(2,3,4) by simp
  then have "ii + mFreqSmoothingBins w < 2 ^ 64" by simp
  then have s2: "add_size_t ii (mFreqSmoothingBins w) = ii + mFreqSmoothingBins w"
    by (rule add_size_t_small)
  have "min (mSpectrumSize w - 1) (ii + mFreqSmoothingBins w) < 2 ^ 31"
    using assms(2) by simp
  then have "to_int (int (min (mSpectrumSize w - 1) (ii + mFreqSmoothingBins w)))
      = int (min (mSpectrumSize w - 1) (ii + mFreqSmoothingBins w))"
    by (intro to_int_small) simp_all
  then show "smoothing_j1 w ii = int (min (mSpectrumSize w - 1) (ii + mFreqSmoothingBins w))"
    unfolding smoothing_j1_def s1 s2 .
qed

lemma clipped_window_card:
  assumes "i < n"
  shows "card (clipped_window n B i) = min (n - 1) (i + B) - nat (max 0 (int i - int B)) + 1"
    and "nat (max 0 (int i - int B)) \<le> min (n - 1) (i + B)"
proof -
  show le: "nat (max 0 (int i - int B)) \<le> min (n - 1) (i + B)" using assms by auto
  show "card (clipped_window n B i) = min (n - 1) (i + B) - nat (max 0 (int i - int B)) + 1"
    using le by (simp add: clipped_window_def Suc_diff_le)
qed

lemma std_fill_length: "length (std_fill lo hi v xs) = length xs"
  by (simp add: std_fill_def)

lemma std_fill_nth:
  "i < length xs \<Longrightarrow> std_fill lo hi v xs ! i = (if lo \<le> i \<and> i < hi then v else xs ! i)"
  by (simp add: std_fill_def)

lemma ApplyFreqSmoothing_bin_update:
  "ApplyFreqSmoothing_bin w logs scratch ii =
     scratch[ii := (\<lambda>ii x. foldl (\<lambda>acc jj. acc + logs ! nat jj) x
                                [smoothing_j0 w ii .. smoothing_j1 w ii]
                              / real_of_int (smoothing_j1 w ii - smoothing_j0 w ii + 1))
                     ii (scratch ! ii)]"
  by (simp add: ApplyFreqSmoothing_bin_def Let_def)

lemma ApplyFreqSmoothing_scratch:
  assumes S: "1 \<le> mSpectrumSize w" "mSpectrumSize w < 2 ^ 31"
    and B: "mFreqSmoothingBins w < 2 ^ 31"
    and i: "i < mSpectrumSize w"
    and len: "length scratch0 = mSpectrumSize w" "length logs = mSpectrumSize w"
    and zero: "scratch0 ! i = 0"
  shows "foldl (ApplyFreqSmoothing_bin w logs) scratch0 [0 ..< mSpectrumSize w] ! i =
           (\<Sum>j \<in> clipped_window (mSpectrumSize w) (mFreqSmoothingBins w) i. logs ! j)
             / real (card (clipped_window (mSpectrumSize w) (mFreqSmoothingBins w) i))"
proof -
  let ?lo = "nat (max 0 (int i - int (mFreqSmoothingBins w)))"
  let ?hi = "min (mSpectrumSize w - 1) (i + mFreqSmoothingBins w)"
  let ?F = "\<lambda>ii x. foldl (\<lambda>acc jj. acc + logs ! nat jj) x
                                [smoothing_j0 w ii .. smoothing_j1 w ii]
                              / real_of_int (smoothing_j1 w ii - smoothing_j0 w ii + 1)"
  have fn: "ApplyFreqSmoothing_bin w logs = (\<lambda>xs ii. xs[ii := ?F ii (xs ! ii)])"
    by (intro ext) (rule ApplyFreqSmoothing_bin_update)
  have "mSpectrumSize w \<le> length scratch0" using len by simp
  then have "foldl (\<lambda>xs ii. xs[ii := ?F ii (xs ! ii)]) scratch0 [0 ..< mSpectrumSize w] ! i
      = (if i < mSpectrumSize w then ?F i (scratch0 ! i) else scratch0 ! i)"
    by (rule foldl_update_nth)
  then have r: "foldl (ApplyFreqSmoothing_bin w logs) scratch0 [0 ..< mSpectrumSize w] ! i
      = ?F i 0"
    using i zero by (simp only: fn if_True)
  have j: "smoothing_j0 w i = int ?lo" "smoothing_j1 w i = int ?hi"
    using smoothing_bounds [OF S B i] by simp_all
  have c: "card (clipped_window (mSpectrumSize w) (mFreqSmoothingBins w) i) = ?hi - ?lo + 1"
      and le: "?lo \<le> ?hi"
    using clipped_window_card [OF i] by simp_all
  have "foldl (\<lambda>acc jj. acc + logs ! nat jj) 0 [int ?lo .. int ?hi]
      = sum_list (map (\<lambda>jj. logs ! nat jj) [int ?lo .. int ?hi])"
    by (simp add: foldl_add_sum_list)
  also have "\<dots> = (\<Sum>j = ?lo .. ?hi. logs ! j)"
    by (rule sum_list_upto_window)
  finally have num: "foldl (\<lambda>acc jj. acc + logs ! nat jj) 0 [int ?lo .. int ?hi]
      = (\<Sum>j \<in> clipped_window (mSpectrumSize w) (mFreqSmoothingBins w) i. logs ! j)"
    by (simp add: clipped_window_def)
  have "int ?hi - int ?lo + 1 = int (?hi - ?lo + 1)" using le by simp
  then have den: "real_of_int (int ?hi - int ?lo + 1) = real (?hi - ?lo + 1)"
    by (simp only: of_int_of_nat_eq)
  show ?thesis
    unfolding r j num den c ..
qed

lemma clipped_window_below:
  assumes "i < n" and "j \<in> clipped_window n B i"
  shows "j < n"
  using assms by (auto simp: clipped_window_def)

lemma clipped_window_zero: "i < n \<Longrightarrow> clipped_window n 0 i = {i}"
  by (auto simp: clipped_window_def)

lemma ApplyFreqSmoothing_length: "length (snd (ApplyFreqSmoothing w g)) = length g"
  by (simp add: ApplyFreqSmoothing_def Let_def)

lemma ApplyFreqSmoothing_characterised:
  assumes "length g = mSpectrumSize w" and "length (mFreqSmoothingScratch w) = mSpectrumSize w"
    and "mSpectrumSize w < 2 ^ 31" and "mFreqSmoothingBins w < 2 ^ 31"
    and "\<forall>x \<in> set g. 0 < x"
    and "i < mSpectrumSize w"
  shows "snd (ApplyFreqSmoothing w g) ! i =
           exp ((\<Sum>j \<in> clipped_window (mSpectrumSize w) (mFreqSmoothingBins w) i. ln (g ! j))
                / real (card (clipped_window (mSpectrumSize w) (mFreqSmoothingBins w) i)))
       \<and> length (snd (ApplyFreqSmoothing w g)) = mSpectrumSize w
       \<and> (mFreqSmoothingBins w = 0 \<longrightarrow> snd (ApplyFreqSmoothing w g) = g)"
proof -
  let ?S = "mSpectrumSize w" and ?B = "mFreqSmoothingBins w"
  have S1: "1 \<le> ?S" using assms(6) by simp
  have pos: "0 < g ! i" using assms(1,5,6) by simp
  have nth: "snd (ApplyFreqSmoothing w g) ! i =
           exp ((\<Sum>j \<in> clipped_window ?S ?B i. ln (g ! j)) / real (card (clipped_window ?S ?B i)))"
  proof (cases "?B = 0")
    case True
    then show ?thesis
      using pos assms(6) by (simp add: ApplyFreqSmoothing_def clipped_window_zero)
  next
    case False
    let ?logs = "map (\<lambda>ii. if ii < ?S then ln (g ! ii) else g ! ii) [0 ..< length g]"
    let ?cleared = "std_fill 0 ?S 0 (mFreqSmoothingScratch w)"
    let ?scratch = "foldl (ApplyFreqSmoothing_bin w ?logs) ?cleared [0 ..< ?S]"
    have l0: "length ?cleared = ?S" using assms(2) by (simp add: std_fill_length)
    have ll: "length ?logs = ?S" using assms(1) by simp
    have z: "?cleared ! i = 0" using assms(2,6) by (simp add: std_fill_nth)
    have sc: "?scratch ! i = (\<Sum>j \<in> clipped_window ?S ?B i. ?logs ! j)
                              / real (card (clipped_window ?S ?B i))"
      using S1 assms(3,4,6) l0 ll z by (rule ApplyFreqSmoothing_scratch)
    have "(\<Sum>j \<in> clipped_window ?S ?B i. ?logs ! j) = (\<Sum>j \<in> clipped_window ?S ?B i. ln (g ! j))"
    proof (rule sum.cong [OF refl])
      fix j assume "j \<in> clipped_window ?S ?B i"
      with assms(6) have "j < ?S" by (rule clipped_window_below)
      then show "?logs ! j = ln (g ! j)" using assms(1) by simp
    qed
    then have sc': "?scratch ! i = (\<Sum>j \<in> clipped_window ?S ?B i. ln (g ! j))
                              / real (card (clipped_window ?S ?B i))"
      using sc by simp
    have "snd (ApplyFreqSmoothing w g) ! i = exp (?scratch ! i)"
      using False assms(1,6) by (simp add: ApplyFreqSmoothing_def Let_def)
    then show ?thesis unfolding sc' .
  qed
  have len: "length (snd (ApplyFreqSmoothing w g)) = ?S"
    using assms(1) by (simp add: ApplyFreqSmoothing_length)
  have unchanged: "?B = 0 \<longrightarrow> snd (ApplyFreqSmoothing w g) = g"
    by (simp add: ApplyFreqSmoothing_def)
  from nth len unchanged show ?thesis by simp
qed

text \<open>
  Claim C5. For a gain vector of the length of the spectrum with positive entries, and a
  half-width \<open>B = mFreqSmoothingBins\<close> that fits an \<^verbatim>\<open>int\<close>, \<^verbatim>\<open>ApplyFreqSmoothing\<close>
  replaces every gain \<open>g[i]\<close> by the exponential of the arithmetic mean of \<open>ln g[j]\<close>
  over the bins \<open>j\<close> from \<open>max 0 (i - B)\<close> to \<open>min (SpectrumSize - 1) (i + B)\<close>; the
  length is kept, and with \<open>B = 0\<close> the vector is returned as it is.
\<close>

theorem ApplyFreqSmoothing_geometric_mean:
  assumes "length g = mSpectrumSize w" and "length (mFreqSmoothingScratch w) = mSpectrumSize w"
    and "mSpectrumSize w < 2 ^ 31" and "mFreqSmoothingBins w < 2 ^ 31"
    and "\<forall>x \<in> set g. 0 < x"
    and "i < mSpectrumSize w"
  shows "snd (ApplyFreqSmoothing w g) ! i =
           exp ((\<Sum>j \<in> clipped_window (mSpectrumSize w) (mFreqSmoothingBins w) i. ln (g ! j))
                / real (card (clipped_window (mSpectrumSize w) (mFreqSmoothingBins w) i)))
       \<and> length (snd (ApplyFreqSmoothing w g)) = mSpectrumSize w
       \<and> (mFreqSmoothingBins w = 0 \<longrightarrow> snd (ApplyFreqSmoothing w g) = g)"
  using assms by (rule ApplyFreqSmoothing_characterised)

lemma ring_worker_smoothing:
  "mFreqSmoothingBins (ring_worker p0 p1 p2 g0 g1 g2) = 3"
  "mFreqSmoothingScratch (ring_worker p0 p1 p2 g0 g1 g2) = replicate 5 0"
  by (simp_all add: ring_worker_def Worker_Worker_def small_sizes small_fields
      to_size_t_def cast_int_def)

theorem ApplyFreqSmoothing_geometric_mean_witness:
  "snd (ApplyFreqSmoothing (ring_worker [] [] [] [] [] []) [1 / 10, 1 / 10, 1 / 10, 1 / 10, 1]) ! 0
     = 1 / 10"
proof -
  let ?w = "ring_worker [] [] [] [] [] []"
  let ?g = "[1 / 10, 1 / 10, 1 / 10, 1 / 10, 1::real]"
  have c: "clipped_window 5 3 0 = {0, 1, 2, 3}"
    by (auto simp: clipped_window_def)
  have "snd (ApplyFreqSmoothing ?w ?g) ! 0 =
           exp ((\<Sum>j \<in> clipped_window (mSpectrumSize ?w) (mFreqSmoothingBins ?w) 0. ln (?g ! j))
                / real (card (clipped_window (mSpectrumSize ?w) (mFreqSmoothingBins ?w) 0)))
       \<and> length (snd (ApplyFreqSmoothing ?w ?g)) = mSpectrumSize ?w
       \<and> (mFreqSmoothingBins ?w = 0 \<longrightarrow> snd (ApplyFreqSmoothing ?w ?g) = ?g)"
    by (rule ApplyFreqSmoothing_geometric_mean)
       (simp_all add: ring_worker_fields ring_worker_smoothing)
  then have "snd (ApplyFreqSmoothing ?w ?g) ! 0 =
      exp ((\<Sum>j \<in> {0, 1, 2, 3}. ln (?g ! j)) / real (card {0::nat, 1, 2, 3}))"
    by (simp only: ring_worker_fields ring_worker_smoothing c)
  also have "\<dots> = exp (ln (1 / 10))"
    by simp
  also have "\<dots> = 1 / 10" by (simp only: exp_ln_iff)
  finally show ?thesis .
qed

section \<open>Temporal shaping: attack and release\<close>

lemma map_update_id: "(map f xs)[i := f (xs ! i)] = map f xs"
  by (metis list_update_id map_update)

lemma attack_walk_length: "length (attack_walk w jj iis q) = length q"
  by (induction iis arbitrary: q) (simp_all add: Let_def)

lemma attack_walk_other_fields:
  "map mSpectrums (attack_walk w jj iis q) = map mSpectrums q
   \<and> map mRealFFTs (attack_walk w jj iis q) = map mRealFFTs q
   \<and> map mImagFFTs (attack_walk w jj iis q) = map mImagFFTs q
   \<and> map (\<lambda>r. length (mGains r)) (attack_walk w jj iis q) = map (\<lambda>r. length (mGains r)) q"
proof (induction iis arbitrary: q)
  case Nil
  then show ?case by simp
next
  case (Cons ii iis)
  let ?q' = "q[ii := (q ! ii)\<lparr>mGains := (mGains (q ! ii))
      [jj := max (mNoiseAttenFactor w) (mGains (q ! (ii - 1)) ! jj * mOneBlockAttack w)]\<rparr>]"
  have "map mSpectrums ?q' = map mSpectrums q \<and> map mRealFFTs ?q' = map mRealFFTs q
      \<and> map mImagFFTs ?q' = map mImagFFTs q
      \<and> map (\<lambda>r. length (mGains r)) ?q' = map (\<lambda>r. length (mGains r)) q"
    by (simp add: map_update map_update_id
        map_update_id [where f = "\<lambda>r. length (mGains r)", simplified])
  with Cons.IH [of ?q'] show ?case by (simp add: Let_def)
qed

lemma column_length: "length (column q b) = length q"
  by (simp add: column_def)

lemma column_update_other:
  "b \<noteq> jj \<Longrightarrow> column (q[ii := (q ! ii)\<lparr>mGains := (mGains (q ! ii))[jj := v]\<rparr>]) b = column q b"
  by (simp add: column_def map_update
      map_update_id [where f = "\<lambda>record. mGains record ! b", simplified])

lemma column_update_same:
  "jj < length (mGains (q ! ii)) \<Longrightarrow>
   column (q[ii := (q ! ii)\<lparr>mGains := (mGains (q ! ii))[jj := v]\<rparr>]) jj = (column q jj)[ii := v]"
  by (simp add: column_def map_update)

lemma attack_walk_other_band:
  "b \<noteq> jj \<Longrightarrow> column (attack_walk w jj iis q) b = column q b"
proof (induction iis arbitrary: q)
  case Nil
  then show ?case by simp
next
  case (Cons ii iis)
  then show ?case by (simp add: Let_def column_update_other)
qed

lemma attack_walk_band:
  assumes "iis = [i ..< length q]" and "1 \<le> i"
    and "\<forall>r \<in> set q. jj < length (mGains r)"
  shows "column (attack_walk w jj iis q) jj =
           take i (column q jj)
           @ attack_curve (mNoiseAttenFactor w) (mOneBlockAttack w) (column q jj ! (i - 1))
               (drop i (column q jj))"
  using assms
proof (induction iis arbitrary: q i)
  case Nil
  from Nil.prems(1) [symmetric] have "length q \<le> i" by auto
  then show ?case by (simp add: column_length)
next
  case (Cons ii iis)
  from Cons.prems(1) [symmetric] have "i < length q \<and> ii = i \<and> iis = [Suc i ..< length q]"
    by (auto simp: upt_eq_Cons_conv)
  then have i: "i < length q" and ii: "ii = i" and iis: "iis = [Suc i ..< length q]"
    by simp_all
  let ?col = "column q jj"
  let ?m = "max (mNoiseAttenFactor w) (?col ! (i - Suc 0) * mOneBlockAttack w)"
  have prev: "mGains (q ! (i - Suc 0)) ! jj = ?col ! (i - Suc 0)"
    using i by (simp add: column_def)
  have cur: "mGains (q ! i) ! jj = ?col ! i"
    using i by (simp add: column_def)
  have d: "drop i ?col = ?col ! i # drop (Suc i) ?col"
    using i by (simp add: Cons_nth_drop_Suc column_length)
  show ?case
  proof (cases "?col ! i < ?m")
    case True
    let ?q' = "q[i := (q ! i)\<lparr>mGains := (mGains (q ! i))[jj := ?m]\<rparr>]"
    have jj: "jj < length (mGains (q ! i))" using Cons.prems(3) i by simp
    have col': "column ?q' jj = ?col[i := ?m]" using jj by (rule column_update_same)
    have g': "\<forall>r \<in> set ?q'. jj < length (mGains r)"
    proof
      fix r assume "r \<in> set ?q'"
      then have "r \<in> insert ((q ! i)\<lparr>mGains := (mGains (q ! i))[jj := ?m]\<rparr>) (set q)"
        using set_update_subset_insert by fast
      then show "jj < length (mGains r)" using Cons.prems(3) jj by auto
    qed
    have iis': "iis = [Suc i ..< length ?q']" using iis by simp
    have "column (attack_walk w jj iis ?q') jj =
        take (Suc i) (column ?q' jj)
        @ attack_curve (mNoiseAttenFactor w) (mOneBlockAttack w) (column ?q' jj ! (Suc i - 1))
            (drop (Suc i) (column ?q' jj))"
      using iis' _ g' by (rule Cons.IH) simp
    also have "\<dots> = take i ?col @ ?m
        # attack_curve (mNoiseAttenFactor w) (mOneBlockAttack w) ?m (drop (Suc i) ?col)"
      unfolding col' using i by (simp add: column_length take_Suc_conv_app_nth)
    finally have r: "column (attack_walk w jj iis ?q') jj = take i ?col @ ?m
        # attack_curve (mNoiseAttenFactor w) (mOneBlockAttack w) ?m (drop (Suc i) ?col)" .
    have "attack_walk w jj (ii # iis) q = attack_walk w jj iis ?q'"
      using True by (simp add: ii Let_def prev cur)
    then show ?thesis using True by (simp add: r d Let_def)
  next
    case False
    have split: "?col = take i ?col @ ?col ! i # drop (Suc i) ?col"
      using i by (intro id_take_nth_drop) (simp add: column_length)
    have stop: "attack_walk w jj (ii # iis) q = q"
      using False by (simp add: ii Let_def prev cur)
    show ?thesis unfolding stop using False by (simp add: d Let_def) (rule split)
  qed
qed

lemma gains_length_preserved:
  assumes "map (\<lambda>r. length (mGains r)) q' = map (\<lambda>r. length (mGains r)) q"
    and "\<forall>r \<in> set q. length (mGains r) = n"
  shows "\<forall>r \<in> set q'. length (mGains r) = n"
proof
  fix r assume "r \<in> set q'"
  then have "length (mGains r) \<in> set (map (\<lambda>r. length (mGains r)) q')" by simp
  then have "length (mGains r) \<in> set (map (\<lambda>r. length (mGains r)) q)" by (simp only: assms(1))
  then show "length (mGains r) = n" using assms(2) by auto
qed

lemma ReduceNoise_attack_bands:
  assumes "\<forall>r \<in> set q. length (mGains r) = n" and "length q = mHistoryLen w" and "k \<le> n"
  shows "length (foldl (\<lambda>q jj. attack_walk w jj [mCenter w + 1 ..< mHistoryLen w] q) q [0 ..< k])
           = length q
       \<and> map mSpectrums (foldl (\<lambda>q jj. attack_walk w jj [mCenter w + 1 ..< mHistoryLen w] q) q [0 ..< k])
           = map mSpectrums q
       \<and> map mRealFFTs (foldl (\<lambda>q jj. attack_walk w jj [mCenter w + 1 ..< mHistoryLen w] q) q [0 ..< k])
           = map mRealFFTs q
       \<and> map mImagFFTs (foldl (\<lambda>q jj. attack_walk w jj [mCenter w + 1 ..< mHistoryLen w] q) q [0 ..< k])
           = map mImagFFTs q
       \<and> map (\<lambda>r. length (mGains r))
            (foldl (\<lambda>q jj. attack_walk w jj [mCenter w + 1 ..< mHistoryLen w] q) q [0 ..< k])
           = map (\<lambda>r. length (mGains r)) q
       \<and> (\<forall>b. column (foldl (\<lambda>q jj. attack_walk w jj [mCenter w + 1 ..< mHistoryLen w] q) q [0 ..< k]) b
           = (if b < k
              then take (mCenter w + 1) (column q b)
                   @ attack_curve (mNoiseAttenFactor w) (mOneBlockAttack w)
                       (column q b ! mCenter w) (drop (mCenter w + 1) (column q b))
              else column q b))"
  using assms(3)
proof (induction k)
  case 0
  then show ?case by simp
next
  case (Suc k)
  let ?qk = "foldl (\<lambda>q jj. attack_walk w jj [mCenter w + 1 ..< mHistoryLen w] q) q [0 ..< k]"
  let ?q' = "attack_walk w k [mCenter w + 1 ..< mHistoryLen w] ?qk"
  have step: "foldl (\<lambda>q jj. attack_walk w jj [mCenter w + 1 ..< mHistoryLen w] q) q [0 ..< Suc k] = ?q'"
    by simp
  from Suc have ih: "length ?qk = length q" "map mSpectrums ?qk = map mSpectrums q"
      "map mRealFFTs ?qk = map mRealFFTs q" "map mImagFFTs ?qk = map mImagFFTs q"
      "map (\<lambda>r. length (mGains r)) ?qk = map (\<lambda>r. length (mGains r)) q"
      "\<And>b. column ?qk b = (if b < k
              then take (mCenter w + 1) (column q b)
                   @ attack_curve (mNoiseAttenFactor w) (mOneBlockAttack w)
                       (column q b ! mCenter w) (drop (mCenter w + 1) (column q b))
              else column q b)"
    by simp_all
  have gl: "\<forall>r \<in> set ?qk. length (mGains r) = n"
    using ih(5) assms(1) by (rule gains_length_preserved)
  then have gk: "\<forall>r \<in> set ?qk. k < length (mGains r)" using Suc.prems by simp
  have iis: "[mCenter w + 1 ..< mHistoryLen w] = [mCenter w + 1 ..< length ?qk]"
    using ih(1) assms(2) by simp
  have band: "column ?q' k = take (mCenter w + 1) (column ?qk k)
      @ attack_curve (mNoiseAttenFactor w) (mOneBlockAttack w)
          (column ?qk k ! (mCenter w + 1 - 1)) (drop (mCenter w + 1) (column ?qk k))"
    using iis _ gk by (rule attack_walk_band) simp
  have other: "b \<noteq> k \<Longrightarrow> column ?q' b = column ?qk b" for b
    by (rule attack_walk_other_band)
  have col: "\<forall>b. column ?q' b = (if b < Suc k
              then take (mCenter w + 1) (column q b)
                   @ attack_curve (mNoiseAttenFactor w) (mOneBlockAttack w)
                       (column q b ! mCenter w) (drop (mCenter w + 1) (column q b))
              else column q b)"
  proof
    fix b
    show "column ?q' b = (if b < Suc k
              then take (mCenter w + 1) (column q b)
                   @ attack_curve (mNoiseAttenFactor w) (mOneBlockAttack w)
                       (column q b ! mCenter w) (drop (mCenter w + 1) (column q b))
              else column q b)"
    proof (cases "b = k")
      case True
      show ?thesis unfolding True band using ih(6) [of k] by simp
    next
      case False
      then show ?thesis using other [of b] ih(6) [of b] by (simp add: less_Suc_eq)
    qed
  qed
  show ?case
    unfolding step
    using attack_walk_other_fields [of w k "[mCenter w + 1 ..< mHistoryLen w]" ?qk] ih(1-5) col
    by (simp add: attack_walk_length)
qed

lemma release_loop_nth:
  assumes "n \<le> length g"
  shows "foldl (\<lambda>g jj. g[jj := max (g ! jj) (max atten (this ! jj * r))]) g [0 ..< n] ! b
           = (if b < n then max (g ! b) (max atten (this ! b * r)) else g ! b)"
  using assms by (rule foldl_update_nth [where f = "\<lambda>jj x. max x (max atten (this ! jj * r))"])

lemma release_loop_length:
  "length (foldl (\<lambda>g jj. g[jj := max (g ! jj) (max atten (this ! jj * r))]) g js) = length g"
  by (rule foldl_update_length [where f = "\<lambda>jj g. max (g ! jj) (max atten (this ! jj * r))"])

lemma ReduceNoise_release_column:
  assumes c: "1 \<le> mCenter w" "mCenter w < length q" "length q < 2 ^ 32"
    and g: "length (mGains (q ! (mCenter w - 1))) = mSpectrumSize w"
    and b: "b < mSpectrumSize w"
  shows "column (ReduceNoise_release w q) b =
           (column q b)[mCenter w - 1 :=
              max (column q b ! (mCenter w - 1))
                (max (mNoiseAttenFactor w) (column q b ! mCenter w * mOneBlockRelease w))]"
proof -
  have "mCenter w < 2 ^ 32" using c(2,3) by simp
  with c(1) have n: "sub_unsigned (mCenter w) 1 = mCenter w - 1" by (rule sub_unsigned_small)
  let ?G = "foldl (\<lambda>g jj. g[jj := max (g ! jj)
                 (max (mNoiseAttenFactor w) (mGains (q ! mCenter w) ! jj * mOneBlockRelease w))])
             (mGains (q ! (mCenter w - 1))) [0 ..< mSpectrumSize w]"
  have r: "ReduceNoise_release w q = q[mCenter w - 1 := (q ! (mCenter w - 1))\<lparr>mGains := ?G\<rparr>]"
    unfolding ReduceNoise_release_def Let_def n ..
  have G: "?G ! b = max (mGains (q ! (mCenter w - 1)) ! b)
                 (max (mNoiseAttenFactor w) (mGains (q ! mCenter w) ! b * mOneBlockRelease w))"
    using g b by (simp add: release_loop_nth)
  have "column (ReduceNoise_release w q) b = (column q b)[mCenter w - 1 := ?G ! b]"
    unfolding r by (simp add: column_def map_update)
  also have "?G ! b = max (column q b ! (mCenter w - 1))
                (max (mNoiseAttenFactor w) (column q b ! mCenter w * mOneBlockRelease w))"
    unfolding G using c by (simp add: column_def)
  finally show ?thesis .
qed

lemma ReduceNoise_release_other_fields:
  "length (ReduceNoise_release w q) = length q
   \<and> map mSpectrums (ReduceNoise_release w q) = map mSpectrums q
   \<and> map mRealFFTs (ReduceNoise_release w q) = map mRealFFTs q
   \<and> map mImagFFTs (ReduceNoise_release w q) = map mImagFFTs q
   \<and> map (\<lambda>r. length (mGains r)) (ReduceNoise_release w q) = map (\<lambda>r. length (mGains r)) q"
  by (simp add: ReduceNoise_release_def Let_def map_update map_update_id release_loop_length
      map_update_id [where f = "\<lambda>r. length (mGains r)", simplified])

lemma shaped_column:
  assumes "1 \<le> c" and "c < length col"
  shows "(take (c + 1) col @ rest)[c - 1 := v] = take (c - 1) col @ [v, col ! c] @ rest"
proof -
  obtain c' where c': "c = Suc c'" using assms(1) by (cases c) simp_all
  have l: "length (take c' col) = c'" using assms(2) c' by simp
  have "take (c + 1) col = take c' col @ [col ! c', col ! c]"
    using assms(2) c' by (simp add: take_Suc_conv_app_nth)
  then have "(take (c + 1) col @ rest)[c - 1 := v] = (take c' col @ col ! c' # (col ! c # rest))[c' := v]"
    by (simp add: c')
  also have "\<dots> = take c' col @ v # (col ! c # rest)"
    using list_update_length [of "take c' col" "col ! c'" "col ! c # rest" v] l by simp
  finally show ?thesis by (simp add: c')
qed

text \<open>The attack and then the release on any queue of \<open>mHistoryLen\<close> records with gain
  vectors of the length of the spectrum, band by band.\<close>

lemma shaping_columns:
  assumes "1 \<le> mCenter w" and "mCenter w < mHistoryLen w" and "mHistoryLen w < 2 ^ 32"
    and "length q = mHistoryLen w"
    and "\<forall>r \<in> set q. length (mGains r) = mSpectrumSize w"
    and "b < mSpectrumSize w"
  shows "column (ReduceNoise_release w (ReduceNoise_attack w q)) b =
           take (mCenter w - 1) (column q b)
           @ [max (column q b ! (mCenter w - 1))
                (max (mNoiseAttenFactor w) (column q b ! mCenter w * mOneBlockRelease w)),
              column q b ! mCenter w]
           @ attack_curve (mNoiseAttenFactor w) (mOneBlockAttack w) (column q b ! mCenter w)
               (drop (mCenter w + 1) (column q b))
       \<and> length (ReduceNoise_release w (ReduceNoise_attack w q)) = length q
       \<and> map (\<lambda>r. length (mGains r)) (ReduceNoise_release w (ReduceNoise_attack w q))
           = map (\<lambda>r. length (mGains r)) q
       \<and> map mSpectrums (ReduceNoise_release w (ReduceNoise_attack w q)) = map mSpectrums q
       \<and> map mRealFFTs (ReduceNoise_release w (ReduceNoise_attack w q)) = map mRealFFTs q
       \<and> map mImagFFTs (ReduceNoise_release w (ReduceNoise_attack w q)) = map mImagFFTs q"
proof -
  let ?c = "mCenter w"
  let ?col = "column q b"
  let ?qa = "ReduceNoise_attack w q"
  let ?tl = "attack_curve (mNoiseAttenFactor w) (mOneBlockAttack w) (?col ! ?c) (drop (?c + 1) ?col)"
  note a = ReduceNoise_attack_bands [OF assms(5,4) le_refl, folded ReduceNoise_attack_def]
  have la: "length ?qa = length q" using a by simp
  have cola: "column ?qa b = take (?c + 1) ?col @ ?tl"
    using a assms(6) by simp
  have "map (\<lambda>r. length (mGains r)) ?qa = map (\<lambda>r. length (mGains r)) q"
    using a by simp
  then have ga: "\<forall>r \<in> set ?qa. length (mGains r) = mSpectrumSize w"
    using assms(5) by (rule gains_length_preserved)
  have c1: "?c - 1 < length ?qa" using la assms(1,2,4) by simp
  then have g1: "length (mGains (?qa ! (?c - 1))) = mSpectrumSize w" using ga by simp
  have lc: "?c < length ?col" using assms(2,4) by (simp add: column_length)
  have n1: "(take (?c + 1) ?col @ ?tl) ! (?c - 1) = ?col ! (?c - 1)"
    using lc assms(1) by (auto simp: nth_append)
  have n2: "(take (?c + 1) ?col @ ?tl) ! ?c = ?col ! ?c"
    using lc by (simp add: nth_append)
  have "column (ReduceNoise_release w ?qa) b =
      (column ?qa b)[?c - 1 := max (column ?qa b ! (?c - 1))
         (max (mNoiseAttenFactor w) (column ?qa b ! ?c * mOneBlockRelease w))]"
  proof (rule ReduceNoise_release_column [OF assms(1) _ _ g1 assms(6)])
    show "mCenter w < length ?qa" using la assms(2,4) by simp
    show "length ?qa < 2 ^ 32" using la assms(3,4) by simp
  qed
  also have "\<dots> = (take (?c + 1) ?col @ ?tl)[?c - 1 := max (?col ! (?c - 1))
         (max (mNoiseAttenFactor w) (?col ! ?c * mOneBlockRelease w))]"
    unfolding cola n1 n2 ..
  also have "\<dots> = take (?c - 1) ?col
      @ [max (?col ! (?c - 1)) (max (mNoiseAttenFactor w) (?col ! ?c * mOneBlockRelease w)),
         ?col ! ?c] @ ?tl"
    using assms(1) lc by (rule shaped_column)
  finally have col: "column (ReduceNoise_release w ?qa) b = take (?c - 1) ?col
      @ [max (?col ! (?c - 1)) (max (mNoiseAttenFactor w) (?col ! ?c * mOneBlockRelease w)),
         ?col ! ?c] @ ?tl" .
  show ?thesis
    using col a ReduceNoise_release_other_fields [of w ?qa] by simp
qed

lemma foldl_preserves:
  assumes "P x" and "\<And>x j. P x \<Longrightarrow> P (f x j)"
  shows "P (foldl f x js)"
  using assms(1)
proof (induction js arbitrary: x)
  case Nil
  then show ?case by simp
next
  case (Cons j js)
  then show ?case using assms(2) by simp
qed

lemma std_fill_empty: "hi \<le> lo \<Longrightarrow> std_fill lo hi v xs = xs"
  by (intro nth_equalityI) (auto simp: std_fill_def)

lemma ReduceNoise_classify_length:
  "length (ReduceNoise_classify w st pGain) = length pGain"
proof -
  have "length (foldl (\<lambda>g jj. g[nat jj := (if Classify w st (nat jj) then 1 else 0)]) start js)
      = length pGain" if "length start = length pGain" for start :: "real list" and js
    using that by (rule foldl_preserves) simp
  moreover have "length (foldl (\<lambda>g jj. if \<not> Classify w st (nat jj) then g[nat jj := 1] else g) start js)
      = length pGain" if "length start = length pGain" for start :: "real list" and js
    using that by (rule foldl_preserves) simp
  ultimately show ?thesis
    unfolding ReduceNoise_classify_def by (simp add: std_fill_length)
qed

lemma column_classified:
  "column (q[c := (q ! c)\<lparr>mGains := g\<rparr>]) b = (column q b)[c := g ! b]"
  by (simp add: column_def map_update)

lemma mQueue_ReduceNoise_output:
  "mQueue (snd (ReduceNoise_output out w)) =
     (mQueue w)[sub_unsigned (mHistoryLen w) 1 :=
        (mQueue w ! sub_unsigned (mHistoryLen w) 1)\<lparr>mGains := snd (ReduceNoise_smooth w)\<rparr>]"
  unfolding ReduceNoise_output_def Let_def by simp

lemma mQueue_ReduceNoise:
  "mQueue (snd (ReduceNoise st out w)) =
     (if mOutStepCount w \<ge> - to_int (int (sub_unsigned (mStepsPerWindow w) 1))
      then mQueue (snd (ReduceNoise_output out (w\<lparr>mQueue := ReduceNoise_gains w st\<rparr>)))
      else ReduceNoise_gains w st)"
  unfolding ReduceNoise_def by simp

text \<open>
  Claim C4. When the worker does not isolate the noise, has a queue of \<open>mHistoryLen\<close>
  records with gain vectors of the length of the spectrum and a centre
  \<open>1 \<le> Center < L\<close>, and \<open>q\<close> is its queue after the first block of \<^verbatim>\<open>ReduceNoise\<close>
  (the classifier has rewritten the gains of the centre record, and nothing else), then
  the queue after the second block of \<^verbatim>\<open>ReduceNoise\<close> is the release applied to the
  attack applied to \<open>q\<close>, and for every band \<open>b\<close> its gains along the queue are: the
  gains of \<open>q\<close> before index \<open>Center - 1\<close> unchanged, then at \<open>Center - 1\<close> the larger of
  the old gain and \<open>max atten (gains[Center][b] * r)\<close>, then the gain of the centre
  unchanged, then the attack walk of the specification over the indices after the centre.
  No vector changes its length, and spectrums and transforms are untouched. The queue that
  \<^verbatim>\<open>ReduceNoise\<close> leaves is this queue, with the gains of its last record replaced by the
  smoothed ones when that record is output.
\<close>

theorem temporal_shaping_as_specified:
  assumes "Worker.mNoiseReductionChoice w \<noteq> NRC_ISOLATE_NOISE"
    and "1 \<le> mCenter w" and "mCenter w < mHistoryLen w" and "mHistoryLen w < 2 ^ 32"
    and "length (mQueue w) = mHistoryLen w"
    and "\<forall>r \<in> set (mQueue w). length (mGains r) = mSpectrumSize w"
    and "b < mSpectrumSize w"
    and "q = (mQueue w)[mCenter w := (mQueue w ! mCenter w)
               \<lparr>mGains := ReduceNoise_classify w st (mGains (mQueue w ! mCenter w))\<rparr>]"
  shows "ReduceNoise_gains w st = ReduceNoise_release w (ReduceNoise_attack w q)
       \<and> column q b = (column (mQueue w) b)
           [mCenter w := ReduceNoise_classify w st (mGains (mQueue w ! mCenter w)) ! b]
       \<and> column (ReduceNoise_gains w st) b =
           take (mCenter w - 1) (column q b)
           @ [max (column q b ! (mCenter w - 1))
                (max (mNoiseAttenFactor w) (column q b ! mCenter w * mOneBlockRelease w)),
              column q b ! mCenter w]
           @ attack_curve (mNoiseAttenFactor w) (mOneBlockAttack w) (column q b ! mCenter w)
               (drop (mCenter w + 1) (column q b))
       \<and> length (ReduceNoise_gains w st) = length (mQueue w)
       \<and> map (\<lambda>r. length (mGains r)) (ReduceNoise_gains w st)
           = map (\<lambda>r. length (mGains r)) (mQueue w)
       \<and> map mSpectrums (ReduceNoise_gains w st) = map mSpectrums (mQueue w)
       \<and> map mRealFFTs (ReduceNoise_gains w st) = map mRealFFTs (mQueue w)
       \<and> map mImagFFTs (ReduceNoise_gains w st) = map mImagFFTs (mQueue w)
       \<and> mQueue (snd (ReduceNoise st out w)) =
           (if mOutStepCount w \<ge> - to_int (int (sub_unsigned (mStepsPerWindow w) 1))
            then (ReduceNoise_gains w st)
                   [mHistoryLen w - 1 := (ReduceNoise_gains w st ! (mHistoryLen w - 1))
                      \<lparr>mGains := snd (ReduceNoise_smooth (w\<lparr>mQueue := ReduceNoise_gains w st\<rparr>))\<rparr>]
            else ReduceNoise_gains w st)"
proof -
  let ?c = "mCenter w"
  let ?g = "ReduceNoise_classify w st (mGains (mQueue w ! ?c))"
  have q: "q = (mQueue w)[?c := (mQueue w ! ?c)\<lparr>mGains := ?g\<rparr>]" by (rule assms(8))
  have gains: "ReduceNoise_gains w st = ReduceNoise_release w (ReduceNoise_attack w q)"
    unfolding ReduceNoise_gains_def Let_def q using assms(1) by simp
  have colq: "column q b = (column (mQueue w) b)[?c := ?g ! b]"
    unfolding q by (rule column_classified)
  have lq: "length q = mHistoryLen w" unfolding q using assms(5) by simp
  have cmem: "mQueue w ! ?c \<in> set (mQueue w)" using assms(3,5) by simp
  have lg: "length ?g = mSpectrumSize w"
    using assms(6) cmem by (simp add: ReduceNoise_classify_length)
  have gq: "\<forall>r \<in> set q. length (mGains r) = mSpectrumSize w"
  proof
    fix r assume "r \<in> set q"
    then have "r \<in> insert ((mQueue w ! ?c)\<lparr>mGains := ?g\<rparr>) (set (mQueue w))"
      unfolding q using set_update_subset_insert by fast
    then show "length (mGains r) = mSpectrumSize w" using assms(6) lg by auto
  qed
  have mq: "map (\<lambda>r. length (mGains r)) q = map (\<lambda>r. length (mGains r)) (mQueue w)"
    using assms(3,5,6) cmem lg unfolding q
    by (intro nth_equalityI) (auto simp: nth_list_update)
  have oq: "map mSpectrums q = map mSpectrums (mQueue w)"
      "map mRealFFTs q = map mRealFFTs (mQueue w)"
      "map mImagFFTs q = map mImagFFTs (mQueue w)"
    unfolding q by (simp_all add: map_update map_update_id)
  note s = shaping_columns [OF assms(2,3,4) lq gq assms(7)]
  have tail: "sub_unsigned (mHistoryLen w) (Suc 0) = mHistoryLen w - Suc 0"
    using sub_unsigned_small [of 1 "mHistoryLen w"] assms(3,4) by simp
  have rn: "mQueue (snd (ReduceNoise st out w)) =
           (if mOutStepCount w \<ge> - to_int (int (sub_unsigned (mStepsPerWindow w) 1))
            then (ReduceNoise_gains w st)
                   [mHistoryLen w - 1 := (ReduceNoise_gains w st ! (mHistoryLen w - 1))
                      \<lparr>mGains := snd (ReduceNoise_smooth (w\<lparr>mQueue := ReduceNoise_gains w st\<rparr>))\<rparr>]
            else ReduceNoise_gains w st)"
    unfolding mQueue_ReduceNoise mQueue_ReduceNoise_output by (simp add: tail)
  have 3: "column (ReduceNoise_gains w st) b =
           take (mCenter w - 1) (column q b)
           @ [max (column q b ! (mCenter w - 1))
                (max (mNoiseAttenFactor w) (column q b ! mCenter w * mOneBlockRelease w)),
              column q b ! mCenter w]
           @ attack_curve (mNoiseAttenFactor w) (mOneBlockAttack w) (column q b ! mCenter w)
               (drop (mCenter w + 1) (column q b))"
    unfolding gains using s by simp
  have 4: "length (ReduceNoise_gains w st) = length (mQueue w)"
    unfolding gains using s lq assms(5) by simp
  have 5: "map (\<lambda>r. length (mGains r)) (ReduceNoise_gains w st)
           = map (\<lambda>r. length (mGains r)) (mQueue w)"
    unfolding gains using s mq by simp
  have 6: "map mSpectrums (ReduceNoise_gains w st) = map mSpectrums (mQueue w)"
    unfolding gains using s oq by simp
  have 7: "map mRealFFTs (ReduceNoise_gains w st) = map mRealFFTs (mQueue w)"
    unfolding gains using s oq by simp
  have 8: "map mImagFFTs (ReduceNoise_gains w st) = map mImagFFTs (mQueue w)"
    unfolding gains using s oq by simp
  from gains colq 3 4 5 6 7 8 rn show ?thesis by (intro conjI)
qed

lemma shaping_worker_fields:
  "mCenter (shaping_worker a0 a1 a2 a3) = 1"
  "mHistoryLen (shaping_worker a0 a1 a2 a3) = 4"
  "mSpectrumSize (shaping_worker a0 a1 a2 a3) = 5"
  "mNoiseAttenFactor (shaping_worker a0 a1 a2 a3) = 1 / 1000"
  "mOneBlockAttack (shaping_worker a0 a1 a2 a3) = 1 / 10"
  "mOneBlockRelease (shaping_worker a0 a1 a2 a3) = 1 / 10"
  "Worker.mNoiseReductionChoice (shaping_worker a0 a1 a2 a3) = 0"
  "mBinLow (shaping_worker a0 a1 a2 a3) = 0"
  "mBinHigh (shaping_worker a0 a1 a2 a3) = 5"
  "Worker.mMethod (shaping_worker a0 a1 a2 a3) = 1"
  "mNWindowsToExamine (shaping_worker a0 a1 a2 a3) = 3"
  "Worker.mNewSensitivity (shaping_worker a0 a1 a2 a3) = 6 * ln 10"
  "mQueue (shaping_worker a0 a1 a2 a3) =
     [(Record_Record 5)\<lparr>mSpectrums := [7, 0, 0, 0, 0], mGains := [a0, 1, 1, 1, 1]\<rparr>,
      (Record_Record 5)\<lparr>mSpectrums := [5, 0, 0, 0, 0], mGains := [a1, 1, 1, 1, 1]\<rparr>,
      (Record_Record 5)\<lparr>mGains := [a2, 1, 1, 1, 1]\<rparr>,
      (Record_Record 5)\<lparr>mGains := [a3, 1, 1, 1, 1]\<rparr>]"
  by (simp_all add: shaping_worker_def Worker_Worker_def small_sizes small_ctor small_fields)

lemma upto_0_4: "[0 .. (4::int)] = [0, 1, 2, 3, 4]"
  by (simp add: upto_rec1)

lemma shaping_worker_Classify:
  "Classify (shaping_worker a0 a1 a2 a3) (Statistics_Statistics 5 rate wt) jj = (jj \<noteq> 0)"
  if "jj < 5"
proof -
  have "jj = 0 \<or> jj = 1 \<or> jj = 2 \<or> jj = 3 \<or> jj = 4" using that by auto
  then show ?thesis
    by (auto simp: Classify_def secondGreatest_def examined_def Classify_second_def
        shaping_worker_fields Statistics_Statistics_def Record_Record_def enum_defs
        upt_rec numeral_3_eq_3)
qed

lemma shaping_worker_classified:
  "ReduceNoise_classify (shaping_worker a0 a1 a2 a3) (Statistics_Statistics 5 rate wt)
     [a, 1, 1, 1, 1] = [1, 1, 1, 1, 1]"
  by (simp add: ReduceNoise_classify_def shaping_worker_fields enum_defs std_fill_empty
      upto_0_4 shaping_worker_Classify)

theorem temporal_shaping_as_specified_witness:
  "column (ReduceNoise_gains (shaping_worker (1 / 1000) (1 / 1000) (1 / 1000) (1 / 1000))
             (Statistics_Statistics 5 44100 WT_RECTANGULAR_HANN)) 0
     = [1 / 10, 1, 1 / 10, 1 / 100]"
proof -
  let ?w = "shaping_worker (1 / 1000) (1 / 1000) (1 / 1000) (1 / 1000)"
  let ?st = "Statistics_Statistics 5 44100 WT_RECTANGULAR_HANN"
  let ?q = "(mQueue ?w)[mCenter ?w := (mQueue ?w ! mCenter ?w)
               \<lparr>mGains := ReduceNoise_classify ?w ?st (mGains (mQueue ?w ! mCenter ?w))\<rparr>]"
  have mode: "Worker.mNoiseReductionChoice ?w \<noteq> NRC_ISOLATE_NOISE"
    by (simp add: shaping_worker_fields enum_defs)
  have c: "1 \<le> mCenter ?w" "mCenter ?w < mHistoryLen ?w" "mHistoryLen ?w < 2 ^ 32"
      "length (mQueue ?w) = mHistoryLen ?w"
    by (simp_all add: shaping_worker_fields)
  have g: "\<forall>r \<in> set (mQueue ?w). length (mGains r) = mSpectrumSize ?w"
    by (simp add: shaping_worker_fields)
  have b: "0 < mSpectrumSize ?w" by (simp add: shaping_worker_fields)
  have col: "column ?q 0 = [1 / 1000, 1, 1 / 1000, 1 / 1000]"
    by (simp add: shaping_worker_fields shaping_worker_classified column_def)
  have "column (ReduceNoise_gains ?w ?st) 0 =
           take (mCenter ?w - 1) (column ?q 0)
           @ [max (column ?q 0 ! (mCenter ?w - 1))
                (max (mNoiseAttenFactor ?w) (column ?q 0 ! mCenter ?w * mOneBlockRelease ?w)),
              column ?q 0 ! mCenter ?w]
           @ attack_curve (mNoiseAttenFactor ?w) (mOneBlockAttack ?w) (column ?q 0 ! mCenter ?w)
               (drop (mCenter ?w + 1) (column ?q 0))"
    using temporal_shaping_as_specified [OF mode c g b refl, of ?st] by blast
  then show ?thesis
    unfolding col by (simp add: shaping_worker_fields)
qed

section \<open>The power spectrums of the queue\<close>

lemma set_std_fill: "set (std_fill lo hi v xs) \<subseteq> insert v (set xs)"
  by (auto simp: std_fill_def)

lemma set_update_insert: "set (xs[i := v]) \<subseteq> insert v (set xs)"
  by (rule set_update_subset_insert)

lemma nonneg_std_fill:
  "\<forall>x \<in> set xs. (0::real) \<le> x \<Longrightarrow> 0 \<le> v \<Longrightarrow> \<forall>x \<in> set (std_fill lo hi v xs). 0 \<le> x"
  using set_std_fill [of lo hi v xs] by auto

lemma nonneg_update:
  "\<forall>x \<in> set xs. (0::real) \<le> x \<Longrightarrow> 0 \<le> v \<Longrightarrow> \<forall>x \<in> set (xs[i := v]). 0 \<le> x"
  using set_update_insert [of xs i v] by auto

lemma spectrums_nonneg_ctor: "spectrums_nonneg (Worker_Worker s rate fft)"
  by (simp add: spectrums_nonneg_def Worker_Worker_def Record_Record_def)

lemma mQueue_StartNewTrack:
  "mQueue (StartNewTrack w) =
     map (\<lambda>ii. if ii < mHistoryLen w then StartNewTrack_record w (mQueue w ! ii)
               else mQueue w ! ii) [0 ..< length (mQueue w)]"
  unfolding StartNewTrack_def by simp

lemma in_set_StartNewTrack:
  assumes "r \<in> set (mQueue (StartNewTrack w))"
  shows "\<exists>r0 \<in> set (mQueue w). r = StartNewTrack_record w r0 \<or> r = r0"
proof -
  from assms obtain ii where ii: "ii < length (mQueue w)"
    and r: "r = (if ii < mHistoryLen w then StartNewTrack_record w (mQueue w ! ii) else mQueue w ! ii)"
    unfolding mQueue_StartNewTrack by auto
  have "mQueue w ! ii \<in> set (mQueue w)" using ii by simp
  then show ?thesis using r by (cases "ii < mHistoryLen w") auto
qed

lemma spectrums_nonneg_StartNewTrack:
  assumes "spectrums_nonneg w"
  shows "spectrums_nonneg (StartNewTrack w)"
  unfolding spectrums_nonneg_def
proof
  fix r assume "r \<in> set (mQueue (StartNewTrack w))"
  then obtain r0 where r0: "r0 \<in> set (mQueue w)" and r: "r = StartNewTrack_record w r0 \<or> r = r0"
    using in_set_StartNewTrack by blast
  have old: "\<forall>x \<in> set (mSpectrums r0). 0 \<le> x"
    using assms r0 unfolding spectrums_nonneg_def by blast
  then have "\<forall>x \<in> set (std_fill 0 (mSpectrumSize w) 0 (mSpectrums r0)). 0 \<le> x"
    by (rule nonneg_std_fill) simp
  then have "\<forall>x \<in> set (mSpectrums (StartNewTrack_record w r0)). 0 \<le> x"
    unfolding StartNewTrack_record_def by simp
  with old r show "\<forall>x \<in> set (mSpectrums r). 0 \<le> x" by auto
qed

lemma mSpectrums_FillFirstHistoryWindow_bin:
  "mSpectrums (FillFirstHistoryWindow_bin br buf r ii) =
     (mSpectrums r)[ii := buf ! nat (br ! ii) * buf ! nat (br ! ii)
                          + buf ! (nat (br ! ii) + 1) * buf ! (nat (br ! ii) + 1)]"
  unfolding FillFirstHistoryWindow_bin_def Let_def by simp

lemma FillFirstHistoryWindow_bin_nonneg:
  assumes "\<forall>x \<in> set (mSpectrums r). 0 \<le> x"
  shows "\<forall>x \<in> set (mSpectrums (foldl (FillFirstHistoryWindow_bin br buf) r iis)). 0 \<le> x"
  using assms
proof (induction iis arbitrary: r)
  case Nil
  then show ?case by simp
next
  case (Cons ii iis)
  have "(0::real) \<le> buf ! nat (br ! ii) * buf ! nat (br ! ii)
                          + buf ! (nat (br ! ii) + 1) * buf ! (nat (br ! ii) + 1)"
    by simp
  with Cons.prems have "\<forall>x \<in> set (mSpectrums (FillFirstHistoryWindow_bin br buf r ii)). 0 \<le> x"
    unfolding mSpectrums_FillFirstHistoryWindow_bin by (rule nonneg_update)
  then have "\<forall>x \<in> set (mSpectrums (foldl (FillFirstHistoryWindow_bin br buf)
      (FillFirstHistoryWindow_bin br buf r ii) iis)). 0 \<le> x"
    by (rule Cons.IH)
  then show ?case by simp
qed

lemma FillFirstHistoryWindow_record_nonneg:
  assumes "\<forall>x \<in> set (mSpectrums r). 0 \<le> x"
  shows "\<forall>x \<in> set (mSpectrums (FillFirstHistoryWindow_record w buf r)). 0 \<le> x"
proof -
  let ?r1 = "foldl (FillFirstHistoryWindow_bin (BitReversed (hFFT w)) buf) r
               [1 ..< sub_size_t (mSpectrumSize w) 1]"
  have r1: "\<forall>x \<in> set (mSpectrums ?r1). 0 \<le> x"
    using assms by (rule FillFirstHistoryWindow_bin_nonneg)
  have "\<forall>x \<in> set ((mSpectrums ?r1)[0 := buf ! 0 * buf ! 0]). 0 \<le> x"
    using r1 by (rule nonneg_update) simp
  then have "\<forall>x \<in> set ((mSpectrums ?r1)[0 := buf ! 0 * buf ! 0,
      sub_size_t (mSpectrumSize w) 1 := buf ! 1 * buf ! 1]). 0 \<le> x"
    by (rule nonneg_update) simp
  then show ?thesis by (simp add: FillFirstHistoryWindow_record_def Let_def)
qed

lemma spectrums_nonneg_FillFirstHistoryWindow:
  assumes "spectrums_nonneg w"
  shows "spectrums_nonneg (FillFirstHistoryWindow w)"
proof -
  let ?buf = "RealFFTf (hFFT w) (FillFirstHistoryWindow_input w)"
  let ?r = "FillFirstHistoryWindow_record w ?buf (mQueue w ! 0)"
  have q: "mQueue (FillFirstHistoryWindow w) = (mQueue w)[0 := ?r]"
    by (simp add: FillFirstHistoryWindow_def Let_def)
  show ?thesis
  proof (cases "mQueue w = []")
    case True
    then show ?thesis by (simp add: spectrums_nonneg_def q)
  next
    case False
    then have "mQueue w ! 0 \<in> set (mQueue w)" by simp
    then have "\<forall>x \<in> set (mSpectrums (mQueue w ! 0)). 0 \<le> x"
      using assms by (simp add: spectrums_nonneg_def)
    then have new: "\<forall>x \<in> set (mSpectrums ?r). 0 \<le> x"
      by (rule FillFirstHistoryWindow_record_nonneg)
    have "set ((mQueue w)[0 := ?r]) \<subseteq> insert ?r (set (mQueue w))"
      by (rule set_update_insert)
    then show ?thesis
      using new assms unfolding spectrums_nonneg_def q by blast
  qed
qed

lemma spectrums_nonneg_cong:
  "map mSpectrums (mQueue w') = map mSpectrums (mQueue w) \<Longrightarrow>
   spectrums_nonneg w' = spectrums_nonneg w"
proof -
  assume a: "map mSpectrums (mQueue w') = map mSpectrums (mQueue w)"
  have "spectrums_nonneg v = (\<forall>sp \<in> set (map mSpectrums (mQueue v)). \<forall>x \<in> set sp. 0 \<le> x)" for v
    by (simp add: spectrums_nonneg_def)
  then show ?thesis by (simp only: a)
qed

lemma map_mSpectrums_gains_update:
  "map mSpectrums (q[i := (q ! i)\<lparr>mGains := g\<rparr>]) = map mSpectrums q"
  by (simp add: map_update map_update_id)

lemma ReduceNoise_attack_spectrums:
  "map mSpectrums (foldl (\<lambda>q jj. attack_walk w jj iis q) q js) = map mSpectrums q"
proof (induction js arbitrary: q)
  case Nil
  then show ?case by simp
next
  case (Cons j js)
  have "map mSpectrums (attack_walk w j iis q) = map mSpectrums q"
    using attack_walk_other_fields [of w j iis q] by simp
  with Cons.IH [of "attack_walk w j iis q"] show ?case by simp
qed

lemma ReduceNoise_gains_spectrums:
  "map mSpectrums (ReduceNoise_gains w st) = map mSpectrums (mQueue w)"
proof -
  let ?q1 = "(mQueue w)[mCenter w := (mQueue w ! mCenter w)
      \<lparr>mGains := ReduceNoise_classify w st (mGains (mQueue w ! mCenter w))\<rparr>]"
  have q1: "map mSpectrums ?q1 = map mSpectrums (mQueue w)"
    by (rule map_mSpectrums_gains_update)
  have "map mSpectrums (ReduceNoise_release w (ReduceNoise_attack w ?q1)) = map mSpectrums ?q1"
    using ReduceNoise_release_other_fields [of w "ReduceNoise_attack w ?q1"]
      ReduceNoise_attack_spectrums [of w "[mCenter w + 1 ..< mHistoryLen w]" ?q1
        "[0 ..< mSpectrumSize w]"]
    by (simp add: ReduceNoise_attack_def)
  then show ?thesis
    unfolding ReduceNoise_gains_def Let_def using q1 by simp
qed

lemma spectrums_nonneg_ReduceNoise:
  "spectrums_nonneg (snd (ReduceNoise st out w)) = spectrums_nonneg w"
proof (rule spectrums_nonneg_cong)
  show "map mSpectrums (mQueue (snd (ReduceNoise st out w))) = map mSpectrums (mQueue w)"
    unfolding mQueue_ReduceNoise mQueue_ReduceNoise_output
    by (simp add: map_mSpectrums_gains_update ReduceNoise_gains_spectrums)
qed

lemma spectrums_nonneg_RotateHistoryWindows:
  "spectrums_nonneg (RotateHistoryWindows w) = spectrums_nonneg w"
  by (simp add: spectrums_nonneg_def RotateHistoryWindows_def)

lemma mQueue_ProcessSamples_step:
  "mQueue (ProcessSamples_step w) = rotate (length (mQueue w) - 1) (mQueue w)"
  unfolding ProcessSamples_step_def ProcessSamples_shift_def RotateHistoryWindows_def Let_def
  by simp

lemma spectrums_nonneg_ProcessSamples_step:
  "spectrums_nonneg (ProcessSamples_step w) = spectrums_nonneg w"
  by (simp add: spectrums_nonneg_def mQueue_ProcessSamples_step)

lemma ProcessSamples_window_worker:
  "snd (snd (ProcessSamples_window (st, out, w))) =
     (if Worker.mDoProfile w then ProcessSamples_step (FillFirstHistoryWindow w)
      else ProcessSamples_step (snd (ReduceNoise st out (FillFirstHistoryWindow w))))"
  unfolding ProcessSamples_window_def by simp

lemma spectrums_nonneg_ProcessSamples_window:
  assumes "spectrums_nonneg w"
  shows "spectrums_nonneg (snd (snd (ProcessSamples_window (st, out, w))))"
  unfolding ProcessSamples_window_worker
  using assms
  by (simp add: spectrums_nonneg_ProcessSamples_step spectrums_nonneg_ReduceNoise
      spectrums_nonneg_FillFirstHistoryWindow)

lemma spectrums_nonneg_buffers:
  "spectrums_nonneg (w\<lparr>mInWaveBuffer := b, mInWavePos := p\<rparr>) = spectrums_nonneg w"
  by (simp add: spectrums_nonneg_def)

lemma spectrums_nonneg_ProcessSamples:
  assumes run: "ProcessSamples state len buffer = Some state'"
  shows "spectrums_nonneg (snd (snd state)) \<longrightarrow> spectrums_nonneg (snd (snd state'))"
proof (rule ProcessSamples.raw_induct
    [where P = "\<lambda>state len buffer state'.
       spectrums_nonneg (snd (snd state)) \<longrightarrow> spectrums_nonneg (snd (snd state'))", OF _ run])
  fix f :: "Statistics \<times> real list \<times> Worker \<Rightarrow> nat \<Rightarrow> real list
       \<Rightarrow> (Statistics \<times> real list \<times> Worker) option"
  fix state len buffer state'
  assume ih: "\<And>state len buffer state'. f state len buffer = Some state' \<Longrightarrow>
      spectrums_nonneg (snd (snd state)) \<longrightarrow> spectrums_nonneg (snd (snd state'))"
  assume body: "(case state of
      (statistics, outputTrack, w) \<Rightarrow>
        if len \<noteq> 0 \<and> mOutStepCount w * int (mStepSize w) < mInSampleCount w
        then let avail = min len (sub_size_t (Worker.mWindowSize w) (nat (mInWavePos w mod 2 ^ 64)));
                 pos = nat (mInWavePos w);
                 w1 = w\<lparr>mInWaveBuffer :=
                      map (\<lambda>i. if pos \<le> i \<and> i < pos + avail then buffer ! (i - pos)
                               else mInWaveBuffer w ! i) [0..<length (mInWaveBuffer w)],
                      mInWavePos := to_int (mInWavePos w + int avail)\<rparr>
             in if mInWavePos w1 = to_int (int (Worker.mWindowSize w1))
                then f (ProcessSamples_window (statistics, outputTrack, w1))
                      (len - avail) (drop avail buffer)
                else f (statistics, outputTrack, w1) (len - avail) (drop avail buffer)
        else Some state) = Some state'"
  obtain st out w where state: "state = (st, out, w)" by (cases state) auto
  show "spectrums_nonneg (snd (snd state)) \<longrightarrow> spectrums_nonneg (snd (snd state'))"
  proof
    assume inv: "spectrums_nonneg (snd (snd state))"
    show "spectrums_nonneg (snd (snd state'))"
    proof (cases "len \<noteq> 0 \<and> mOutStepCount w * int (mStepSize w) < mInSampleCount w")
      case False
      have "Some state = Some state'"
        using body unfolding state by (simp only: prod.case False if_False)
      then show ?thesis using inv by simp
    next
      case True
      let ?avail = "min len (sub_size_t (Worker.mWindowSize w) (nat (mInWavePos w mod 2 ^ 64)))"
      let ?w1 = "w\<lparr>mInWaveBuffer :=
                     map (\<lambda>i. if nat (mInWavePos w) \<le> i \<and> i < nat (mInWavePos w) + ?avail
                               then buffer ! (i - nat (mInWavePos w))
                               else mInWaveBuffer w ! i) [0 ..< length (mInWaveBuffer w)],
                   mInWavePos := to_int (mInWavePos w + int ?avail)\<rparr>"
      have w1: "spectrums_nonneg ?w1"
        using inv by (simp add: state spectrums_nonneg_buffers)
      show ?thesis
      proof (cases "mInWavePos ?w1 = to_int (int (Worker.mWindowSize ?w1))")
        case win: True
        have "f (ProcessSamples_window (st, out, ?w1)) (len - ?avail) (drop ?avail buffer)
            = Some state'"
          using body True win unfolding state by (simp add: Let_def)
        then have "spectrums_nonneg (snd (snd (ProcessSamples_window (st, out, ?w1))))
            \<longrightarrow> spectrums_nonneg (snd (snd state'))"
          by (rule ih)
        moreover have "spectrums_nonneg (snd (snd (ProcessSamples_window (st, out, ?w1))))"
          using w1 by (rule spectrums_nonneg_ProcessSamples_window)
        ultimately show ?thesis by simp
      next
        case nowin: False
        have "f (st, out, ?w1) (len - ?avail) (drop ?avail buffer) = Some state'"
          using body True nowin unfolding state by (simp add: Let_def)
        then have "spectrums_nonneg (snd (snd (st, out, ?w1)))
            \<longrightarrow> spectrums_nonneg (snd (snd state'))"
          by (rule ih)
        then show ?thesis using w1 by simp
      qed
    qed
  qed
qed

lemma FillFirstHistoryWindow_bin_fields:
  "mRealFFTs (FillFirstHistoryWindow_bin br buf r ii) = (mRealFFTs r)[ii := buf ! nat (br ! ii)]"
  "mImagFFTs (FillFirstHistoryWindow_bin br buf r ii) = (mImagFFTs r)[ii := buf ! (nat (br ! ii) + 1)]"
  "mGains (FillFirstHistoryWindow_bin br buf r ii) = mGains r"
  unfolding FillFirstHistoryWindow_bin_def Let_def by simp_all

lemma FillFirstHistoryWindow_bins_lengths:
  "length (mSpectrums (foldl (FillFirstHistoryWindow_bin br buf) r iis)) = length (mSpectrums r)
   \<and> length (mRealFFTs (foldl (FillFirstHistoryWindow_bin br buf) r iis)) = length (mRealFFTs r)
   \<and> length (mImagFFTs (foldl (FillFirstHistoryWindow_bin br buf) r iis)) = length (mImagFFTs r)
   \<and> mGains (foldl (FillFirstHistoryWindow_bin br buf) r iis) = mGains r"
proof (induction iis arbitrary: r)
  case Nil
  then show ?case by simp
next
  case (Cons ii iis)
  show ?case
    using Cons.IH [of "FillFirstHistoryWindow_bin br buf r ii"]
    by (simp add: FillFirstHistoryWindow_bin_fields mSpectrums_FillFirstHistoryWindow_bin)
qed

lemma FillFirstHistoryWindow_bins_power:
  assumes "n \<le> length (mSpectrums r)" "n \<le> length (mRealFFTs r)" "n \<le> length (mImagFFTs r)"
    and "1 \<le> k" "k < n"
  shows "mSpectrums (foldl (FillFirstHistoryWindow_bin br buf) r [1 ..< n]) ! k =
           mRealFFTs (foldl (FillFirstHistoryWindow_bin br buf) r [1 ..< n]) ! k
             * mRealFFTs (foldl (FillFirstHistoryWindow_bin br buf) r [1 ..< n]) ! k
           + mImagFFTs (foldl (FillFirstHistoryWindow_bin br buf) r [1 ..< n]) ! k
             * mImagFFTs (foldl (FillFirstHistoryWindow_bin br buf) r [1 ..< n]) ! k"
  using assms
proof (induction n)
  case 0
  then show ?case by simp
next
  case (Suc n)
  let ?r = "foldl (FillFirstHistoryWindow_bin br buf) r [1 ..< n]"
  have one: "1 \<le> n" using Suc.prems(4,5) by simp
  then have step: "foldl (FillFirstHistoryWindow_bin br buf) r [1 ..< Suc n]
      = FillFirstHistoryWindow_bin br buf ?r n"
    by simp
  have len: "n < length (mSpectrums ?r)" "n < length (mRealFFTs ?r)" "n < length (mImagFFTs ?r)"
    using Suc.prems(1-3) FillFirstHistoryWindow_bins_lengths [of br buf r "[1 ..< n]"] by simp_all
  show ?case
  proof (cases "k = n")
    case True
    show ?thesis
      unfolding step True using len
      by (simp add: FillFirstHistoryWindow_bin_fields mSpectrums_FillFirstHistoryWindow_bin)
  next
    case False
    then have "k < n" using Suc.prems(5) by simp
    then have "mSpectrums ?r ! k = mRealFFTs ?r ! k * mRealFFTs ?r ! k
        + mImagFFTs ?r ! k * mImagFFTs ?r ! k"
      using Suc.IH Suc.prems(1-4) by simp
    then show ?thesis
      unfolding step using False
      by (simp add: FillFirstHistoryWindow_bin_fields mSpectrums_FillFirstHistoryWindow_bin)
  qed
qed

lemma FillFirstHistoryWindow_record_power:
  assumes sized: "Record_sized n r" and n: "2 \<le> n" "n < 2 ^ 64" and S: "mSpectrumSize w = n"
  shows "(\<forall>k. 1 \<le> k \<and> k + 2 \<le> n \<longrightarrow>
            mSpectrums (FillFirstHistoryWindow_record w buf r) ! k =
              (mRealFFTs (FillFirstHistoryWindow_record w buf r) ! k)\<^sup>2
              + (mImagFFTs (FillFirstHistoryWindow_record w buf r) ! k)\<^sup>2)
       \<and> mSpectrums (FillFirstHistoryWindow_record w buf r) ! 0 =
            (mRealFFTs (FillFirstHistoryWindow_record w buf r) ! 0)\<^sup>2
       \<and> mSpectrums (FillFirstHistoryWindow_record w buf r) ! (n - 1) =
            (mImagFFTs (FillFirstHistoryWindow_record w buf r) ! 0)\<^sup>2"
proof -
  have "1 \<le> n" using n(1) by simp
  then have last: "sub_size_t n 1 = n - 1" using n(2) by (rule sub_size_t_small)
  let ?r1 = "foldl (FillFirstHistoryWindow_bin (BitReversed (hFFT w)) buf) r [1 ..< n - 1]"
  have l0: "length (mSpectrums r) = n" "length (mRealFFTs r) = n - 1" "length (mImagFFTs r) = n - 1"
    using sized by (simp_all add: Record_sized_def)
  have l1: "length (mSpectrums ?r1) = n" "length (mRealFFTs ?r1) = n - 1"
      "length (mImagFFTs ?r1) = n - 1"
    using l0 FillFirstHistoryWindow_bins_lengths [of "BitReversed (hFFT w)" buf r "[1 ..< n - 1]"]
    by simp_all
  have fields:
    "mSpectrums (FillFirstHistoryWindow_record w buf r)
       = (mSpectrums ?r1)[0 := buf ! 0 * buf ! 0, n - 1 := buf ! 1 * buf ! 1]"
    "mRealFFTs (FillFirstHistoryWindow_record w buf r) = (mRealFFTs ?r1)[0 := buf ! 0]"
    "mImagFFTs (FillFirstHistoryWindow_record w buf r) = (mImagFFTs ?r1)[0 := buf ! 1]"
    unfolding FillFirstHistoryWindow_record_def Let_def S last by simp_all
  have interior: "mSpectrums (FillFirstHistoryWindow_record w buf r) ! k =
              (mRealFFTs (FillFirstHistoryWindow_record w buf r) ! k)\<^sup>2
              + (mImagFFTs (FillFirstHistoryWindow_record w buf r) ! k)\<^sup>2"
    if k: "1 \<le> k" "k + 2 \<le> n" for k
  proof -
    have kn: "k < n - 1" using k by simp
    have "mSpectrums ?r1 ! k = mRealFFTs ?r1 ! k * mRealFFTs ?r1 ! k
        + mImagFFTs ?r1 ! k * mImagFFTs ?r1 ! k"
      using _ _ _ k(1) kn by (rule FillFirstHistoryWindow_bins_power) (simp_all add: l0)
    then show ?thesis
      unfolding fields using k kn by (simp add: power2_eq_square)
  qed
  have dc: "mSpectrums (FillFirstHistoryWindow_record w buf r) ! 0 =
            (mRealFFTs (FillFirstHistoryWindow_record w buf r) ! 0)\<^sup>2"
    unfolding fields using n(1) l1 by (simp add: power2_eq_square)
  have nyq: "mSpectrums (FillFirstHistoryWindow_record w buf r) ! (n - 1) =
            (mImagFFTs (FillFirstHistoryWindow_record w buf r) ! 0)\<^sup>2"
    unfolding fields using n(1) l1 by (simp add: power2_eq_square)
  from interior dc nyq show ?thesis by blast
qed

lemma mQueue_FillFirstHistoryWindow:
  "mQueue (FillFirstHistoryWindow w) =
     (mQueue w)[0 := FillFirstHistoryWindow_record w
                       (RealFFTf (hFFT w) (FillFirstHistoryWindow_input w)) (mQueue w ! 0)]"
  by (simp add: FillFirstHistoryWindow_def Let_def)

text \<open>
  Claim C10. Every power of every record of the queue is non-negative: in the worker as
  constructed, and after \<^verbatim>\<open>StartNewTrack\<close>, \<^verbatim>\<open>FillFirstHistoryWindow\<close>, \<^verbatim>\<open>ReduceNoise\<close>,
  \<^verbatim>\<open>RotateHistoryWindows\<close>, the processing of one window and any returning call of
  \<^verbatim>\<open>ProcessSamples\<close>, in every mode, whenever it held before. When the record at the head
  of the queue has the sizes of the spectrum, then after \<^verbatim>\<open>FillFirstHistoryWindow\<close> its
  power is \<open>real[k]\<^sup>2 + imag[k]\<^sup>2\<close> for the interior bins \<open>1 \<le> k \<le> SpectrumSize - 2\<close>,
  \<open>real[0]\<^sup>2\<close> for bin 0 and \<open>imag[0]\<^sup>2\<close> for the last bin.
\<close>

theorem spectrums_nonnegative:
  "spectrums_nonneg (Worker_Worker s rate fft)
   \<and> (spectrums_nonneg w \<longrightarrow>
        spectrums_nonneg (StartNewTrack w)
        \<and> spectrums_nonneg (FillFirstHistoryWindow w)
        \<and> spectrums_nonneg (snd (ReduceNoise st out w))
        \<and> spectrums_nonneg (RotateHistoryWindows w)
        \<and> spectrums_nonneg (snd (snd (ProcessSamples_window (st, out, w))))
        \<and> (ProcessSamples (st, out, w) len buffer = Some (st', out', w') \<longrightarrow>
             spectrums_nonneg w'))
   \<and> (mQueue w \<noteq> [] \<and> Record_sized (mSpectrumSize w) (mQueue w ! 0)
        \<and> 2 \<le> mSpectrumSize w \<and> mSpectrumSize w < 2 ^ 64 \<longrightarrow>
        (\<forall>k. 1 \<le> k \<and> k + 2 \<le> mSpectrumSize w \<longrightarrow>
           mSpectrums (mQueue (FillFirstHistoryWindow w) ! 0) ! k =
             (mRealFFTs (mQueue (FillFirstHistoryWindow w) ! 0) ! k)\<^sup>2
             + (mImagFFTs (mQueue (FillFirstHistoryWindow w) ! 0) ! k)\<^sup>2)
        \<and> mSpectrums (mQueue (FillFirstHistoryWindow w) ! 0) ! 0 =
             (mRealFFTs (mQueue (FillFirstHistoryWindow w) ! 0) ! 0)\<^sup>2
        \<and> mSpectrums (mQueue (FillFirstHistoryWindow w) ! 0) ! (mSpectrumSize w - 1) =
             (mImagFFTs (mQueue (FillFirstHistoryWindow w) ! 0) ! 0)\<^sup>2)"
proof -
  have ops: "spectrums_nonneg w \<longrightarrow>
        spectrums_nonneg (StartNewTrack w)
        \<and> spectrums_nonneg (FillFirstHistoryWindow w)
        \<and> spectrums_nonneg (snd (ReduceNoise st out w))
        \<and> spectrums_nonneg (RotateHistoryWindows w)
        \<and> spectrums_nonneg (snd (snd (ProcessSamples_window (st, out, w))))
        \<and> (ProcessSamples (st, out, w) len buffer = Some (st', out', w') \<longrightarrow>
             spectrums_nonneg w')"
  proof
    assume inv: "spectrums_nonneg w"
    have run: "ProcessSamples (st, out, w) len buffer = Some (st', out', w') \<longrightarrow> spectrums_nonneg w'"
    proof
      assume "ProcessSamples (st, out, w) len buffer = Some (st', out', w')"
      then have "spectrums_nonneg (snd (snd (st, out, w)))
          \<longrightarrow> spectrums_nonneg (snd (snd (st', out', w')))"
        by (rule spectrums_nonneg_ProcessSamples)
      then show "spectrums_nonneg w'" using inv by simp
    qed
    show "spectrums_nonneg (StartNewTrack w)
        \<and> spectrums_nonneg (FillFirstHistoryWindow w)
        \<and> spectrums_nonneg (snd (ReduceNoise st out w))
        \<and> spectrums_nonneg (RotateHistoryWindows w)
        \<and> spectrums_nonneg (snd (snd (ProcessSamples_window (st, out, w))))
        \<and> (ProcessSamples (st, out, w) len buffer = Some (st', out', w') \<longrightarrow>
             spectrums_nonneg w')"
      using inv run
      by (simp add: spectrums_nonneg_StartNewTrack spectrums_nonneg_FillFirstHistoryWindow
          spectrums_nonneg_ReduceNoise spectrums_nonneg_RotateHistoryWindows
          spectrums_nonneg_ProcessSamples_window)
  qed
  have fill: "mQueue w \<noteq> [] \<and> Record_sized (mSpectrumSize w) (mQueue w ! 0)
        \<and> 2 \<le> mSpectrumSize w \<and> mSpectrumSize w < 2 ^ 64 \<longrightarrow>
        (\<forall>k. 1 \<le> k \<and> k + 2 \<le> mSpectrumSize w \<longrightarrow>
           mSpectrums (mQueue (FillFirstHistoryWindow w) ! 0) ! k =
             (mRealFFTs (mQueue (FillFirstHistoryWindow w) ! 0) ! k)\<^sup>2
             + (mImagFFTs (mQueue (FillFirstHistoryWindow w) ! 0) ! k)\<^sup>2)
        \<and> mSpectrums (mQueue (FillFirstHistoryWindow w) ! 0) ! 0 =
             (mRealFFTs (mQueue (FillFirstHistoryWindow w) ! 0) ! 0)\<^sup>2
        \<and> mSpectrums (mQueue (FillFirstHistoryWindow w) ! 0) ! (mSpectrumSize w - 1) =
             (mImagFFTs (mQueue (FillFirstHistoryWindow w) ! 0) ! 0)\<^sup>2"
  proof (intro impI, elim conjE)
    assume a: "mQueue w \<noteq> []" "Record_sized (mSpectrumSize w) (mQueue w ! 0)"
      "2 \<le> mSpectrumSize w" "mSpectrumSize w < 2 ^ 64"
    have head: "mQueue (FillFirstHistoryWindow w) ! 0 =
        FillFirstHistoryWindow_record w (RealFFTf (hFFT w) (FillFirstHistoryWindow_input w))
          (mQueue w ! 0)"
      using a(1) by (simp add: mQueue_FillFirstHistoryWindow)
    show "(\<forall>k. 1 \<le> k \<and> k + 2 \<le> mSpectrumSize w \<longrightarrow>
           mSpectrums (mQueue (FillFirstHistoryWindow w) ! 0) ! k =
             (mRealFFTs (mQueue (FillFirstHistoryWindow w) ! 0) ! k)\<^sup>2
             + (mImagFFTs (mQueue (FillFirstHistoryWindow w) ! 0) ! k)\<^sup>2)
        \<and> mSpectrums (mQueue (FillFirstHistoryWindow w) ! 0) ! 0 =
             (mRealFFTs (mQueue (FillFirstHistoryWindow w) ! 0) ! 0)\<^sup>2
        \<and> mSpectrums (mQueue (FillFirstHistoryWindow w) ! 0) ! (mSpectrumSize w - 1) =
             (mImagFFTs (mQueue (FillFirstHistoryWindow w) ! 0) ! 0)\<^sup>2"
      unfolding head using a(2,3,4) refl by (rule FillFirstHistoryWindow_record_power)
  qed
  from spectrums_nonneg_ctor ops fill show ?thesis by blast
qed

lemma ProcessSamples_done: "ProcessSamples state 0 buffer = Some state"
  by (subst ProcessSamples.simps) (simp split: prod.splits)

lemma StartNewTrack_fields:
  "mStepSize (StartNewTrack w) = mStepSize w"
  "Worker.mWindowSize (StartNewTrack w) = Worker.mWindowSize w"
  "mSpectrumSize (StartNewTrack w) = mSpectrumSize w"
  "mHistoryLen (StartNewTrack w) = mHistoryLen w"
  "mInWavePos (StartNewTrack w) =
     (if Worker.mDoProfile w then 0
      else to_int (int (sub_size_t (Worker.mWindowSize w) (mStepSize w))))"
  "mOutStepCount (StartNewTrack w) =
     (if Worker.mDoProfile w then - to_int (int (sub_unsigned (mHistoryLen w) 1))
      else - to_int (int (sub_unsigned (mHistoryLen w) 1))
           - to_int (int (sub_unsigned (mStepsPerWindow w) 1)))"
  unfolding StartNewTrack_def by simp_all

lemma small_worker_fields:
  "mStepSize (Worker_Worker small_settings 44100 example_fft) = 4"
  "Worker.mWindowSize (Worker_Worker small_settings 44100 example_fft) = 8"
  "mSpectrumSize (Worker_Worker small_settings 44100 example_fft) = 5"
  "mHistoryLen (Worker_Worker small_settings 44100 example_fft) = 3"
  "mStepsPerWindow (Worker_Worker small_settings 44100 example_fft) = 2"
  "Worker.mDoProfile (Worker_Worker small_settings 44100 example_fft) = False"
  "mQueue (Worker_Worker small_settings 44100 example_fft) = replicate 3 (Record_Record 5)"
  by (simp_all add: Worker_Worker_def small_sizes small_ctor small_fields)

lemma started_worker_fields:
  "mStepSize started_worker = 4" "Worker.mWindowSize started_worker = 8"
  "mSpectrumSize started_worker = 5"
  "mInWavePos started_worker = 4" "mOutStepCount started_worker = - 3"
  "mInSampleCount started_worker = 4"
  by (simp_all add: started_worker_def StartNewTrack_fields small_worker_fields
      to_int_def sub_size_t_def sub_unsigned_def)

lemma started_worker_run:
  "ProcessSamples (st, out, started_worker) 4 [1, 1, 1, 1] \<noteq> None"
  by (subst ProcessSamples.simps)
     (simp add: started_worker_fields ProcessSamples_done Let_def sub_size_t_def to_int_def)

lemma Record_sized_StartNewTrack_record:
  "Record_sized n r \<Longrightarrow> Record_sized n (StartNewTrack_record w r)"
  by (simp add: Record_sized_def StartNewTrack_record_def std_fill_length)

lemma Record_sized_Record_Record: "Record_sized n (Record_Record n)"
  by (simp add: Record_sized_def Record_Record_def)

lemma started_worker_head:
  "mQueue started_worker \<noteq> []"
  "Record_sized 5 (mQueue started_worker ! 0)"
  by (simp_all add: started_worker_def mQueue_StartNewTrack small_worker_fields
      Record_sized_StartNewTrack_record Record_sized_Record_Record upt_rec)

theorem spectrums_nonnegative_witness:
  "\<exists>st' out' w'.
     ProcessSamples (Statistics_Statistics 5 44100 WT_RECTANGULAR_HANN, [], started_worker)
       4 [1, 1, 1, 1] = Some (st', out', w')
     \<and> spectrums_nonneg w'
     \<and> mSpectrums (mQueue (FillFirstHistoryWindow started_worker) ! 0) ! 0 =
          (mRealFFTs (mQueue (FillFirstHistoryWindow started_worker) ! 0) ! 0)\<^sup>2"
proof -
  let ?w0 = "Worker_Worker small_settings 44100 example_fft"
  let ?st = "Statistics_Statistics 5 44100 WT_RECTANGULAR_HANN"
  have "spectrums_nonneg (StartNewTrack ?w0)"
    using spectrums_nonnegative [of small_settings 44100 example_fft ?w0] by blast
  then have inv: "spectrums_nonneg started_worker"
    by (simp add: started_worker_def spectrums_nonneg_def)
  obtain st' out' w' where
    run: "ProcessSamples (?st, [], started_worker) 4 [1, 1, 1, 1] = Some (st', out', w')"
    using started_worker_run [of ?st "[]"] by (cases "ProcessSamples (?st, [], started_worker) 4 [1, 1, 1, 1]") auto
  have sized: "mQueue started_worker \<noteq> [] \<and> Record_sized (mSpectrumSize started_worker)
      (mQueue started_worker ! 0) \<and> 2 \<le> mSpectrumSize started_worker
      \<and> mSpectrumSize started_worker < 2 ^ 64"
    by (simp add: started_worker_head started_worker_fields)
  from spectrums_nonnegative [where w = started_worker and st = ?st and out = "[]" and len = 4
      and buffer = "[1, 1, 1, 1]" and st' = st' and out' = out' and w' = w'] inv run sized
  have "spectrums_nonneg w' \<and> mSpectrums (mQueue (FillFirstHistoryWindow started_worker) ! 0) ! 0 =
          (mRealFFTs (mQueue (FillFirstHistoryWindow started_worker) ! 0) ! 0)\<^sup>2"
    by blast
  with run show ?thesis by blast
qed

section \<open>The gains of the queue\<close>

text \<open>The invariant of the reducing worker: the sizes that the constructor establishes,
  the mode and the factors, and every gain of every record between the attenuation factor
  and 1. Each operation is followed through the fields that the invariant reads.\<close>

lemma reduce_inv_transfer:
  assumes "Worker_sized w" and "reducing w" and "same_config w' w"
    and "length (mFreqSmoothingScratch w') = length (mFreqSmoothingScratch w)"
    and "length (mQueue w') = length (mQueue w)"
    and "\<forall>r \<in> set (mQueue w'). Record_sized (mSpectrumSize w) r"
    and "in_range (mNoiseAttenFactor w) (mQueue w')"
  shows "reduce_inv w'"
  using assms
  unfolding reduce_inv_def Worker_sized_def reducing_def gains_in_range_def same_config_def
  by simp

lemma same_config_refl: "same_config w w"
  by (simp add: same_config_def)

lemma same_config_StartNewTrack: "same_config (StartNewTrack w) w"
  unfolding same_config_def StartNewTrack_def by simp

lemma same_config_FillFirstHistoryWindow: "same_config (FillFirstHistoryWindow w) w"
  unfolding same_config_def FillFirstHistoryWindow_def Let_def by simp

lemma same_config_ReduceNoise_output: "same_config (snd (ReduceNoise_output out w)) w"
  unfolding same_config_def ReduceNoise_output_def Let_def by simp

lemma same_config_mQueue: "same_config (w\<lparr>mQueue := q\<rparr>) w"
  by (simp add: same_config_def)

lemma same_config_trans: "same_config w'' w' \<Longrightarrow> same_config w' w \<Longrightarrow> same_config w'' w"
  by (simp add: same_config_def)

lemma same_config_ReduceNoise: "same_config (snd (ReduceNoise st out w)) w"
proof (cases "mOutStepCount w \<ge> - to_int (int (sub_unsigned (mStepsPerWindow w) 1))")
  case True
  then have "snd (ReduceNoise st out w)
      = snd (ReduceNoise_output out (w\<lparr>mQueue := ReduceNoise_gains w st\<rparr>))"
    by (simp add: ReduceNoise_def)
  then show ?thesis
    using same_config_trans [OF same_config_ReduceNoise_output same_config_mQueue] by simp
next
  case False
  then have "snd (ReduceNoise st out w) = w\<lparr>mQueue := ReduceNoise_gains w st\<rparr>"
    by (simp add: ReduceNoise_def)
  then show ?thesis by (simp add: same_config_mQueue)
qed

lemma same_config_RotateHistoryWindows: "same_config (RotateHistoryWindows w) w"
  unfolding same_config_def RotateHistoryWindows_def by simp

lemma same_config_ProcessSamples_step: "same_config (ProcessSamples_step w) w"
  unfolding same_config_def ProcessSamples_step_def ProcessSamples_shift_def
    RotateHistoryWindows_def Let_def by simp

lemma scratch_other_ops:
  "mFreqSmoothingScratch (StartNewTrack w) = mFreqSmoothingScratch w"
  "mFreqSmoothingScratch (FillFirstHistoryWindow w) = mFreqSmoothingScratch w"
  "mFreqSmoothingScratch (RotateHistoryWindows w) = mFreqSmoothingScratch w"
  "mFreqSmoothingScratch (ProcessSamples_step w) = mFreqSmoothingScratch w"
  unfolding StartNewTrack_def FillFirstHistoryWindow_def RotateHistoryWindows_def
    ProcessSamples_step_def ProcessSamples_shift_def Let_def by simp_all

lemma ball_update:
  "\<forall>x \<in> set xs. P x \<Longrightarrow> P v \<Longrightarrow> \<forall>x \<in> set (xs[i := v]). P x"
  using set_update_subset_insert [of xs i v] by auto

lemma in_range_update:
  assumes "in_range lo q" and "\<forall>g \<in> set (mGains r). lo \<le> g \<and> g \<le> 1"
  shows "in_range lo (q[i := r])"
  unfolding in_range_def using assms(1) [unfolded in_range_def] assms(2)
  by (rule ball_update)

lemma sized_update:
  assumes "\<forall>r \<in> set q. Record_sized n r" and "Record_sized n r'"
  shows "\<forall>r \<in> set (q[i := r']). Record_sized n r"
  using assms by (rule ball_update)

lemma std_fill_all:
  "length xs \<le> hi \<Longrightarrow> \<forall>x \<in> set (std_fill 0 hi v xs). x = v"
  by (auto simp: std_fill_def)

lemma Record_sized_gains: "Record_sized n r \<Longrightarrow> length (mGains r) = n"
  by (simp add: Record_sized_def)

lemma StartNewTrack_record_range:
  assumes "Record_sized (mSpectrumSize w) r" and "lo \<le> mNoiseAttenFactor w"
    and "mNoiseAttenFactor w \<le> 1"
  shows "\<forall>g \<in> set (mGains (StartNewTrack_record w r)). lo \<le> g \<and> g \<le> 1"
proof -
  have "length (mGains r) \<le> mSpectrumSize w" using assms(1) by (simp add: Record_sized_def)
  then have "\<forall>x \<in> set (std_fill 0 (mSpectrumSize w) (mNoiseAttenFactor w) (mGains r)).
      x = mNoiseAttenFactor w"
    by (rule std_fill_all)
  moreover have "mGains (StartNewTrack_record w r)
      = std_fill 0 (mSpectrumSize w) (mNoiseAttenFactor w) (mGains r)"
    by (simp add: StartNewTrack_record_def)
  ultimately show ?thesis using assms(2,3) by auto
qed

lemma reduce_inv_StartNewTrack:
  assumes sized: "Worker_sized w" and red: "reducing w"
  shows "reduce_inv (StartNewTrack w)"
proof (rule reduce_inv_transfer [OF sized red same_config_StartNewTrack])
  show "length (mFreqSmoothingScratch (StartNewTrack w)) = length (mFreqSmoothingScratch w)"
    by (simp add: scratch_other_ops)
  show "length (mQueue (StartNewTrack w)) = length (mQueue w)"
    by (simp add: mQueue_StartNewTrack)
  have len: "length (mQueue w) = mHistoryLen w" using sized by (simp add: Worker_sized_def)
  have old: "\<forall>r \<in> set (mQueue w). Record_sized (mSpectrumSize w) r"
    using sized by (simp add: Worker_sized_def)
  have att: "mNoiseAttenFactor w \<le> 1" using red by (simp add: reducing_def)
  have new: "r \<in> set (mQueue (StartNewTrack w)) \<Longrightarrow>
      \<exists>r0 \<in> set (mQueue w). r = StartNewTrack_record w r0" for r
    unfolding mQueue_StartNewTrack using len by auto
  show "\<forall>r \<in> set (mQueue (StartNewTrack w)). Record_sized (mSpectrumSize w) r"
    using new old Record_sized_StartNewTrack_record by blast
  show "in_range (mNoiseAttenFactor w) (mQueue (StartNewTrack w))"
    unfolding in_range_def
  proof
    fix r assume "r \<in> set (mQueue (StartNewTrack w))"
    then obtain r0 where r0: "r0 \<in> set (mQueue w)" and r: "r = StartNewTrack_record w r0"
      using new by blast
    have "Record_sized (mSpectrumSize w) r0" using old r0 by simp
    then show "\<forall>g \<in> set (mGains r). mNoiseAttenFactor w \<le> g \<and> g \<le> 1"
      unfolding r using _ att by (rule StartNewTrack_record_range) simp
  qed
qed

lemma FillFirstHistoryWindow_record_sized:
  assumes "Record_sized n r"
  shows "Record_sized n (FillFirstHistoryWindow_record w buf r)"
proof -
  let ?r1 = "foldl (FillFirstHistoryWindow_bin (BitReversed (hFFT w)) buf) r
               [1 ..< sub_size_t (mSpectrumSize w) 1]"
  have "length (mSpectrums ?r1) = n \<and> length (mRealFFTs ?r1) = n - 1
      \<and> length (mImagFFTs ?r1) = n - 1 \<and> length (mGains ?r1) = n"
    using assms FillFirstHistoryWindow_bins_lengths
      [of "BitReversed (hFFT w)" buf r "[1 ..< sub_size_t (mSpectrumSize w) 1]"]
    by (simp add: Record_sized_def)
  then show ?thesis
    unfolding FillFirstHistoryWindow_record_def Let_def Record_sized_def
    by (simp add: std_fill_length)
qed

lemma FillFirstHistoryWindow_record_range:
  assumes "Record_sized (mSpectrumSize w) r"
    and "Worker.mNoiseReductionChoice w \<noteq> NRC_ISOLATE_NOISE"
    and "lo \<le> mNoiseAttenFactor w" and "mNoiseAttenFactor w \<le> 1"
  shows "\<forall>g \<in> set (mGains (FillFirstHistoryWindow_record w buf r)). lo \<le> g \<and> g \<le> 1"
proof -
  let ?r1 = "foldl (FillFirstHistoryWindow_bin (BitReversed (hFFT w)) buf) r
               [1 ..< sub_size_t (mSpectrumSize w) 1]"
  have "mGains ?r1 = mGains r"
    using FillFirstHistoryWindow_bins_lengths
      [of "BitReversed (hFFT w)" buf r "[1 ..< sub_size_t (mSpectrumSize w) 1]"] by simp
  then have "length (mGains ?r1) \<le> mSpectrumSize w"
    using assms(1) by (simp add: Record_sized_def)
  then have "\<forall>x \<in> set (std_fill 0 (mSpectrumSize w) (mNoiseAttenFactor w) (mGains ?r1)).
      x = mNoiseAttenFactor w"
    by (rule std_fill_all)
  moreover have "mGains (FillFirstHistoryWindow_record w buf r)
      = std_fill 0 (mSpectrumSize w) (mNoiseAttenFactor w) (mGains ?r1)"
    unfolding FillFirstHistoryWindow_record_def Let_def using assms(2) by simp
  ultimately show ?thesis using assms(3,4) by auto
qed

lemma reduce_inv_parts:
  "reduce_inv w \<Longrightarrow> Worker_sized w"
  "reduce_inv w \<Longrightarrow> reducing w"
  "reduce_inv w \<Longrightarrow> in_range (mNoiseAttenFactor w) (mQueue w)"
  by (simp_all add: reduce_inv_def gains_in_range_def)

lemma Worker_sized_parts:
  assumes "Worker_sized w"
  shows "length (mQueue w) = mHistoryLen w"
    and "\<forall>r \<in> set (mQueue w). Record_sized (mSpectrumSize w) r"
    and "2 \<le> mSpectrumSize w" and "mSpectrumSize w < 2 ^ 31"
    and "1 \<le> mCenter w" and "mCenter w < mHistoryLen w" and "mHistoryLen w < 2 ^ 32"
    and "mBinLow w = 0" and "mBinHigh w = int (mSpectrumSize w)"
    and "length (mFreqSmoothingScratch w) = mSpectrumSize w"
    and "mFreqSmoothingBins w < 2 ^ 31"
  using assms by (simp_all add: Worker_sized_def)

lemma reducing_parts:
  assumes "reducing w"
  shows "Worker.mNoiseReductionChoice w \<noteq> NRC_ISOLATE_NOISE"
    and "0 < mNoiseAttenFactor w" and "mNoiseAttenFactor w \<le> 1"
    and "mOneBlockAttack w \<le> 1" and "mOneBlockRelease w \<le> 1"
  using assms by (simp_all add: reducing_def)

lemma reduce_inv_FillFirstHistoryWindow:
  assumes inv: "reduce_inv w"
  shows "reduce_inv (FillFirstHistoryWindow w)"
proof (rule reduce_inv_transfer [OF reduce_inv_parts(1,2) [OF inv] same_config_FillFirstHistoryWindow])
  note sized = Worker_sized_parts [OF reduce_inv_parts(1) [OF inv]]
  note red = reducing_parts [OF reduce_inv_parts(2) [OF inv]]
  let ?R = "FillFirstHistoryWindow_record w (RealFFTf (hFFT w) (FillFirstHistoryWindow_input w))
      (mQueue w ! 0)"
  have "mQueue w \<noteq> []" using sized(1,5,6) by auto
  then have head: "Record_sized (mSpectrumSize w) (mQueue w ! 0)" using sized(2) by simp
  show "length (mFreqSmoothingScratch (FillFirstHistoryWindow w)) = length (mFreqSmoothingScratch w)"
    by (simp add: scratch_other_ops)
  show "length (mQueue (FillFirstHistoryWindow w)) = length (mQueue w)"
    by (simp add: mQueue_FillFirstHistoryWindow)
  have "Record_sized (mSpectrumSize w) ?R"
    using head by (rule FillFirstHistoryWindow_record_sized)
  with sized(2) show "\<forall>r \<in> set (mQueue (FillFirstHistoryWindow w)). Record_sized (mSpectrumSize w) r"
    unfolding mQueue_FillFirstHistoryWindow by (rule sized_update)
  have "\<forall>g \<in> set (mGains ?R). mNoiseAttenFactor w \<le> g \<and> g \<le> 1"
    using head red(1) _ red(3) by (rule FillFirstHistoryWindow_record_range) simp
  with reduce_inv_parts(3) [OF inv]
  show "in_range (mNoiseAttenFactor w) (mQueue (FillFirstHistoryWindow w))"
    unfolding mQueue_FillFirstHistoryWindow by (rule in_range_update)
qed

lemma ball_std_fill:
  "\<forall>x \<in> set xs. P x \<Longrightarrow> P v \<Longrightarrow> \<forall>x \<in> set (std_fill lo hi v xs). P x"
  using set_std_fill [of lo hi v xs] by auto

lemma ReduceNoise_classify_range:
  assumes g: "\<forall>g \<in> set pGain. lo \<le> g \<and> g \<le> 1" and lo: "lo \<le> 1"
    and mode: "Worker.mNoiseReductionChoice w \<noteq> NRC_ISOLATE_NOISE"
  shows "length (ReduceNoise_classify w st pGain) = length pGain
       \<and> (\<forall>g \<in> set (ReduceNoise_classify w st pGain). lo \<le> g \<and> g \<le> 1)"
proof -
  let ?P = "\<lambda>v. length v = length pGain \<and> (\<forall>g \<in> set v. lo \<le> g \<and> g \<le> 1)"
  let ?start = "std_fill (nat (mBinHigh w)) (mSpectrumSize w) 1 (std_fill 0 (nat (mBinLow w)) 1 pGain)"
  have one: "lo \<le> (1::real) \<and> (1::real) \<le> 1" using lo by simp
  have "\<forall>g \<in> set (std_fill 0 (nat (mBinLow w)) 1 pGain). lo \<le> g \<and> g \<le> 1"
    using g one by (rule ball_std_fill)
  then have "\<forall>g \<in> set ?start. lo \<le> g \<and> g \<le> 1"
    using one by (rule ball_std_fill)
  then have start: "?P ?start" by (simp add: std_fill_length)
  have step: "?P (if \<not> Classify w st (nat jj) then v[nat jj := 1] else v)" if "?P v" for v jj
    using that ball_update [of v "\<lambda>g. lo \<le> g \<and> g \<le> 1" 1 "nat jj"] one by simp
  have "?P (foldl (\<lambda>g jj. if \<not> Classify w st (nat jj) then g[nat jj := 1] else g)
      ?start [mBinLow w .. mBinHigh w - 1])"
    using start step by (rule foldl_preserves)
  then show ?thesis
    unfolding ReduceNoise_classify_def using mode by simp
qed

lemma attack_walk_in_range:
  assumes "in_range (mNoiseAttenFactor w) q"
    and "\<forall>r \<in> set q. jj < length (mGains r)"
    and "\<forall>ii \<in> set iis. 1 \<le> ii \<and> ii < length q"
    and att: "0 < mNoiseAttenFactor w" "mNoiseAttenFactor w \<le> 1"
    and a: "mOneBlockAttack w \<le> 1"
  shows "in_range (mNoiseAttenFactor w) (attack_walk w jj iis q)"
  using assms(1-3)
proof (induction iis arbitrary: q)
  case Nil
  then show ?case by simp
next
  case (Cons ii iis)
  let ?lo = "mNoiseAttenFactor w"
  let ?prev = "mGains (q ! (ii - 1)) ! jj"
  let ?m = "max ?lo (?prev * mOneBlockAttack w)"
  let ?r' = "(q ! ii)\<lparr>mGains := (mGains (q ! ii))[jj := ?m]\<rparr>"
  let ?q' = "q[ii := ?r']"
  have ii: "1 \<le> ii" "ii < length q" using Cons.prems(3) by simp_all
  then have mem: "q ! (ii - 1) \<in> set q" "q ! ii \<in> set q" by simp_all
  have "jj < length (mGains (q ! (ii - 1)))" using Cons.prems(2) mem(1) by blast
  then have "?prev \<in> set (mGains (q ! (ii - 1)))" by simp
  then have prev: "?lo \<le> ?prev \<and> ?prev \<le> 1"
    using Cons.prems(1) mem(1) unfolding in_range_def by blast
  then have "0 \<le> ?prev" using att(1) by simp
  then have "?prev * mOneBlockAttack w \<le> ?prev * 1" using a by (rule mult_left_mono [rotated])
  then have m: "?lo \<le> ?m \<and> ?m \<le> 1" using prev att(2) by simp
  have "\<forall>g \<in> set (mGains (q ! ii)). ?lo \<le> g \<and> g \<le> 1"
    using Cons.prems(1) mem(2) unfolding in_range_def by blast
  then have "\<forall>g \<in> set ((mGains (q ! ii))[jj := ?m]). ?lo \<le> g \<and> g \<le> 1"
    using m by (rule ball_update)
  then have "\<forall>g \<in> set (mGains ?r'). ?lo \<le> g \<and> g \<le> 1" by simp
  with Cons.prems(1) have r1: "in_range ?lo ?q'" by (rule in_range_update)
  have "jj < length (mGains ?r')" using Cons.prems(2) mem(2) by simp
  with Cons.prems(2) have r2: "\<forall>r \<in> set ?q'. jj < length (mGains r)"
    by (rule ball_update)
  have r3: "\<forall>ii \<in> set iis. 1 \<le> ii \<and> ii < length ?q'" using Cons.prems(3) by simp
  have "in_range ?lo (attack_walk w jj iis ?q')" using r1 r2 r3 by (rule Cons.IH)
  then show ?case using Cons.prems(1) by (simp add: Let_def)
qed

lemma ReduceNoise_attack_in_range:
  assumes "in_range (mNoiseAttenFactor w) q" and "length q = mHistoryLen w"
    and "\<forall>r \<in> set q. length (mGains r) = mSpectrumSize w"
    and att: "0 < mNoiseAttenFactor w" "mNoiseAttenFactor w \<le> 1"
    and a: "mOneBlockAttack w \<le> 1"
  shows "in_range (mNoiseAttenFactor w) (ReduceNoise_attack w q)"
proof -
  let ?iis = "[mCenter w + 1 ..< mHistoryLen w]"
  let ?P = "\<lambda>q. in_range (mNoiseAttenFactor w) q \<and> length q = mHistoryLen w
      \<and> (\<forall>r \<in> set q. length (mGains r) = mSpectrumSize w)"
  have step: "?P (attack_walk w jj ?iis q)" if P: "?P q" and jj: "jj < mSpectrumSize w" for q jj
  proof -
    have 1: "\<forall>r \<in> set q. jj < length (mGains r)" using P jj by simp
    have 2: "\<forall>ii \<in> set ?iis. 1 \<le> ii \<and> ii < length q" using P by simp
    have "in_range (mNoiseAttenFactor w) (attack_walk w jj ?iis q)"
      using _ 1 2 att a by (rule attack_walk_in_range) (simp add: P)
    moreover have "map (\<lambda>r. length (mGains r)) (attack_walk w jj ?iis q)
        = map (\<lambda>r. length (mGains r)) q"
      using attack_walk_other_fields [of w jj ?iis q] by simp
    then have "\<forall>r \<in> set (attack_walk w jj ?iis q). length (mGains r) = mSpectrumSize w"
      using _ by (rule gains_length_preserved) (simp add: P)
    ultimately show ?thesis using P by (simp add: attack_walk_length)
  qed
  have "?P (foldl (\<lambda>q jj. attack_walk w jj ?iis q) q js)" if "\<forall>j \<in> set js. j < mSpectrumSize w" for js
    using that assms(1-3)
  proof (induction js arbitrary: q)
    case Nil
    then show ?case by simp
  next
    case (Cons j js)
    have "?P (attack_walk w j ?iis q)"
      using Cons.prems by (intro step) simp_all
    then show ?case using Cons.IH [of "attack_walk w j ?iis q"] Cons.prems(1) by simp
  qed
  from this [of "[0 ..< mSpectrumSize w]"] show ?thesis
    by (simp add: ReduceNoise_attack_def)
qed

lemma in_range_update_gains:
  assumes "in_range lo q" and "\<forall>g \<in> set G. lo \<le> g \<and> g \<le> 1"
  shows "in_range lo (q[i := r\<lparr>mGains := G\<rparr>])"
  using assms(1) by (rule in_range_update) (simp add: assms(2))

lemma ReduceNoise_release_in_range:
  assumes q: "in_range (mNoiseAttenFactor w) q"
    and c: "1 \<le> mCenter w" "mCenter w < length q" "length q < 2 ^ 32"
    and g: "\<forall>r \<in> set q. length (mGains r) = mSpectrumSize w"
    and att: "0 < mNoiseAttenFactor w" "mNoiseAttenFactor w \<le> 1"
    and r: "mOneBlockRelease w \<le> 1"
  shows "in_range (mNoiseAttenFactor w) (ReduceNoise_release w q)"
proof -
  let ?lo = "mNoiseAttenFactor w"
  have "mCenter w < 2 ^ 32" using c(2,3) by simp
  with c(1) have n: "sub_unsigned (mCenter w) 1 = mCenter w - 1" by (rule sub_unsigned_small)
  let ?nxt = "mGains (q ! (mCenter w - 1))" and ?cur = "mGains (q ! mCenter w)"
  let ?G = "foldl (\<lambda>g jj. g[jj := max (g ! jj) (max ?lo (?cur ! jj * mOneBlockRelease w))])
             ?nxt [0 ..< mSpectrumSize w]"
  have rel: "ReduceNoise_release w q = q[mCenter w - 1 := (q ! (mCenter w - 1))\<lparr>mGains := ?G\<rparr>]"
    unfolding ReduceNoise_release_def Let_def n ..
  have mem: "q ! (mCenter w - 1) \<in> set q" "q ! mCenter w \<in> set q" using c by simp_all
  have len: "length ?nxt = mSpectrumSize w" "length ?cur = mSpectrumSize w"
    using g mem by simp_all
  have rng: "\<forall>x \<in> set ?nxt. ?lo \<le> x \<and> x \<le> 1" "\<forall>x \<in> set ?cur. ?lo \<le> x \<and> x \<le> 1"
    using q mem unfolding in_range_def by blast+
  have lG: "length ?G = mSpectrumSize w" using len by (simp add: release_loop_length)
  have "?lo \<le> ?G ! b \<and> ?G ! b \<le> 1" if b: "b < mSpectrumSize w" for b
  proof -
    have Gb: "?G ! b = max (?nxt ! b) (max ?lo (?cur ! b * mOneBlockRelease w))"
      using len b by (simp add: release_loop_nth)
    have nb: "?lo \<le> ?nxt ! b \<and> ?nxt ! b \<le> 1" using rng(1) len b by simp
    have tb: "?lo \<le> ?cur ! b \<and> ?cur ! b \<le> 1" using rng(2) len b by simp
    then have "0 \<le> ?cur ! b" using att(1) by simp
    then have "?cur ! b * mOneBlockRelease w \<le> ?cur ! b * 1"
      using r by (rule mult_left_mono [rotated])
    then have "?cur ! b * mOneBlockRelease w \<le> 1" using tb by simp
    then show ?thesis unfolding Gb using nb att(2) by simp
  qed
  then have "\<forall>x \<in> set ?G. ?lo \<le> x \<and> x \<le> 1"
    using lG by (simp add: all_set_conv_all_nth)
  with q show ?thesis unfolding rel by (rule in_range_update_gains)
qed

lemma ApplyFreqSmoothing_range:
  assumes len: "length g = mSpectrumSize w" "length (mFreqSmoothingScratch w) = mSpectrumSize w"
    and S: "mSpectrumSize w < 2 ^ 31" and B: "mFreqSmoothingBins w < 2 ^ 31"
    and g: "\<forall>x \<in> set g. lo \<le> x \<and> x \<le> 1" and lo: "0 < lo"
  shows "\<forall>x \<in> set (snd (ApplyFreqSmoothing w g)). lo \<le> x \<and> x \<le> 1"
proof -
  have pos: "\<forall>x \<in> set g. 0 < x" using g lo by auto
  have l: "length (snd (ApplyFreqSmoothing w g)) = mSpectrumSize w"
    using len(1) by (simp add: ApplyFreqSmoothing_length)
  have "lo \<le> snd (ApplyFreqSmoothing w g) ! i \<and> snd (ApplyFreqSmoothing w g) ! i \<le> 1"
    if i: "i < mSpectrumSize w" for i
  proof -
    let ?A = "clipped_window (mSpectrumSize w) (mFreqSmoothingBins w) i"
    have nth: "snd (ApplyFreqSmoothing w g) ! i
        = exp ((\<Sum>j \<in> ?A. ln (g ! j)) / real (card ?A))"
      using ApplyFreqSmoothing_characterised [OF len S B pos i] by simp
    have card: "0 < card ?A" using clipped_window_card(1) [OF i] by simp
    have bound: "ln lo \<le> ln (g ! j) \<and> ln (g ! j) \<le> 0" if "j \<in> ?A" for j
    proof -
      from i that have "j < mSpectrumSize w" by (rule clipped_window_below)
      then have "g ! j \<in> set g" using len(1) by simp
      then have "lo \<le> g ! j \<and> g ! j \<le> 1" using g by blast
      then show ?thesis using lo by simp
    qed
    have "(\<Sum>j \<in> ?A. ln (g ! j)) \<le> real (card ?A) * 0"
      using bound by (intro sum_bounded_above) simp
    then have up: "(\<Sum>j \<in> ?A. ln (g ! j)) / real (card ?A) \<le> 0"
      using card by (simp add: divide_le_0_iff)
    have "real (card ?A) * ln lo \<le> (\<Sum>j \<in> ?A. ln (g ! j))"
      using bound by (intro sum_bounded_below) simp
    then have low: "ln lo \<le> (\<Sum>j \<in> ?A. ln (g ! j)) / real (card ?A)"
      using card by (simp add: le_divide_eq mult.commute)
    have "exp (ln lo) \<le> exp ((\<Sum>j \<in> ?A. ln (g ! j)) / real (card ?A))"
      using low by simp
    then have "lo \<le> exp ((\<Sum>j \<in> ?A. ln (g ! j)) / real (card ?A))"
      using lo by simp
    moreover have "exp ((\<Sum>j \<in> ?A. ln (g ! j)) / real (card ?A)) \<le> 1"
      using up by simp
    ultimately show ?thesis unfolding nth by simp
  qed
  then show ?thesis using l by (simp add: all_set_conv_all_nth)
qed

lemma ApplyFreqSmoothing_scratch_length:
  "length (fst (ApplyFreqSmoothing w g)) = length (mFreqSmoothingScratch w)"
proof -
  have "length (foldl (ApplyFreqSmoothing_bin w logs) scratch js) = length scratch" for logs scratch js
    by (induction js arbitrary: scratch) (simp_all add: ApplyFreqSmoothing_bin_update)
  then show ?thesis
    by (simp add: ApplyFreqSmoothing_def Let_def std_fill_length)
qed

lemma Record_sized_gains_update:
  "Record_sized n r \<Longrightarrow> length G = n \<Longrightarrow> Record_sized n (r\<lparr>mGains := G\<rparr>)"
  by (simp add: Record_sized_def)

lemma sized_from_maps:
  assumes q: "\<forall>r \<in> set q. Record_sized n r"
    and m: "map mSpectrums q' = map mSpectrums q" "map mRealFFTs q' = map mRealFFTs q"
      "map mImagFFTs q' = map mImagFFTs q"
      "map (\<lambda>r. length (mGains r)) q' = map (\<lambda>r. length (mGains r)) q"
  shows "\<forall>r \<in> set q'. Record_sized n r"
proof -
  have l: "length q' = length q" using m(1) by (rule map_eq_imp_length_eq)
  have "Record_sized n (q' ! i)" if i: "i < length q'" for i
  proof -
    have "map mSpectrums q' ! i = map mSpectrums q ! i" "map mRealFFTs q' ! i = map mRealFFTs q ! i"
      "map mImagFFTs q' ! i = map mImagFFTs q ! i"
      "map (\<lambda>r. length (mGains r)) q' ! i = map (\<lambda>r. length (mGains r)) q ! i"
      using m by simp_all
    then have "mSpectrums (q' ! i) = mSpectrums (q ! i)" "mRealFFTs (q' ! i) = mRealFFTs (q ! i)"
      "mImagFFTs (q' ! i) = mImagFFTs (q ! i)" "length (mGains (q' ! i)) = length (mGains (q ! i))"
      using i l by simp_all
    moreover have "Record_sized n (q ! i)" using q i l by simp
    ultimately show ?thesis by (simp add: Record_sized_def)
  qed
  then show ?thesis by (simp add: all_set_conv_all_nth)
qed

lemma sized_gains:
  "\<forall>r \<in> set q. Record_sized n r \<Longrightarrow> \<forall>r \<in> set q. length (mGains r) = n"
  by (simp add: Record_sized_def)

lemma ReduceNoise_gains_inv:
  assumes inv: "reduce_inv w"
  shows "length (ReduceNoise_gains w st) = mHistoryLen w"
    and "\<forall>r \<in> set (ReduceNoise_gains w st). Record_sized (mSpectrumSize w) r"
    and "in_range (mNoiseAttenFactor w) (ReduceNoise_gains w st)"
proof -
  note sized = Worker_sized_parts [OF reduce_inv_parts(1) [OF inv]]
  note red = reducing_parts [OF reduce_inv_parts(2) [OF inv]]
  note rng = reduce_inv_parts(3) [OF inv]
  let ?c = "mCenter w" and ?q = "mQueue w" and ?lo = "mNoiseAttenFactor w"
  let ?C = "ReduceNoise_classify w st (mGains (?q ! ?c))"
  let ?q1 = "?q[?c := (?q ! ?c)\<lparr>mGains := ?C\<rparr>]"
  let ?qa = "ReduceNoise_attack w ?q1"
  let ?qr = "ReduceNoise_release w ?qa"
  have G: "ReduceNoise_gains w st = ?qr"
    unfolding ReduceNoise_gains_def Let_def using red(1) by simp
  have cmem: "?q ! ?c \<in> set ?q" using sized(1,6) by simp
  then have cr: "\<forall>g \<in> set (mGains (?q ! ?c)). ?lo \<le> g \<and> g \<le> 1"
    using rng unfolding in_range_def by blast
  have csz: "Record_sized (mSpectrumSize w) (?q ! ?c)" using sized(2) cmem by blast
  have C: "length ?C = length (mGains (?q ! ?c)) \<and> (\<forall>g \<in> set ?C. ?lo \<le> g \<and> g \<le> 1)"
    using cr red(3) red(1) by (rule ReduceNoise_classify_range)
  have r1: "in_range ?lo ?q1" using rng C by (intro in_range_update_gains) simp_all
  have l1: "length ?q1 = mHistoryLen w" using sized(1) by simp
  have "Record_sized (mSpectrumSize w) ((?q ! ?c)\<lparr>mGains := ?C\<rparr>)"
    using csz C by (intro Record_sized_gains_update) (simp_all add: Record_sized_def)
  with sized(2) have s1: "\<forall>r \<in> set ?q1. Record_sized (mSpectrumSize w) r"
    by (rule sized_update)
  then have g1: "\<forall>r \<in> set ?q1. length (mGains r) = mSpectrumSize w" by (rule sized_gains)
  note a = ReduceNoise_attack_bands [OF g1 l1 le_refl, folded ReduceNoise_attack_def]
  have la: "length ?qa = mHistoryLen w" using a l1 by simp
  have am: "map mSpectrums ?qa = map mSpectrums ?q1" "map mRealFFTs ?qa = map mRealFFTs ?q1"
      "map mImagFFTs ?qa = map mImagFFTs ?q1"
      "map (\<lambda>r. length (mGains r)) ?qa = map (\<lambda>r. length (mGains r)) ?q1"
    using a by simp_all
  have sa: "\<forall>r \<in> set ?qa. Record_sized (mSpectrumSize w) r"
    using s1 am by (rule sized_from_maps)
  then have ga: "\<forall>r \<in> set ?qa. length (mGains r) = mSpectrumSize w" by (rule sized_gains)
  have ra: "in_range ?lo ?qa"
    using r1 l1 g1 red(2,3,4) by (rule ReduceNoise_attack_in_range)
  have ca: "mCenter w < length ?qa" using la sized(6) by simp
  have la32: "length ?qa < 2 ^ 32" using la sized(7) by simp
  have rr: "in_range ?lo ?qr"
    using ra sized(5) ca la32 ga red(2,3,5) by (rule ReduceNoise_release_in_range)
  have rm: "map mSpectrums ?qr = map mSpectrums ?qa" "map mRealFFTs ?qr = map mRealFFTs ?qa"
      "map mImagFFTs ?qr = map mImagFFTs ?qa"
      "map (\<lambda>r. length (mGains r)) ?qr = map (\<lambda>r. length (mGains r)) ?qa"
    using ReduceNoise_release_other_fields [of w ?qa] by simp_all
  have sr: "\<forall>r \<in> set ?qr. Record_sized (mSpectrumSize w) r"
    using sa rm by (rule sized_from_maps)
  have lr: "length ?qr = mHistoryLen w"
    using la ReduceNoise_release_other_fields [of w ?qa] by simp
  show "length (ReduceNoise_gains w st) = mHistoryLen w" unfolding G by (rule lr)
  show "\<forall>r \<in> set (ReduceNoise_gains w st). Record_sized (mSpectrumSize w) r"
    unfolding G by (rule sr)
  show "in_range (mNoiseAttenFactor w) (ReduceNoise_gains w st)" unfolding G by (rule rr)
qed

lemma scratch_ReduceNoise_output:
  "mFreqSmoothingScratch (snd (ReduceNoise_output out w)) = fst (ReduceNoise_smooth w)"
  unfolding ReduceNoise_output_def Let_def by simp

lemma ReduceNoise_smooth_reducing:
  "Worker.mNoiseReductionChoice w \<noteq> NRC_ISOLATE_NOISE \<Longrightarrow>
   ReduceNoise_smooth w = ApplyFreqSmoothing w (mGains (mQueue w ! sub_unsigned (mHistoryLen w) 1))"
  by (simp add: ReduceNoise_smooth_def Let_def)

lemma reduce_inv_set_queue:
  assumes inv: "reduce_inv w"
    and q: "length q = mHistoryLen w" "\<forall>r \<in> set q. Record_sized (mSpectrumSize w) r"
      "in_range (mNoiseAttenFactor w) q"
  shows "reduce_inv (w\<lparr>mQueue := q\<rparr>)"
  using reduce_inv_parts(1,2) [OF inv] same_config_mQueue
proof (rule reduce_inv_transfer)
  show "length (mFreqSmoothingScratch (w\<lparr>mQueue := q\<rparr>)) = length (mFreqSmoothingScratch w)"
    by simp
  show "length (mQueue (w\<lparr>mQueue := q\<rparr>)) = length (mQueue w)"
    using q(1) Worker_sized_parts(1) [OF reduce_inv_parts(1) [OF inv]] by simp
  show "\<forall>r \<in> set (mQueue (w\<lparr>mQueue := q\<rparr>)). Record_sized (mSpectrumSize w) r"
    using q(2) by simp
  show "in_range (mNoiseAttenFactor w) (mQueue (w\<lparr>mQueue := q\<rparr>))" using q(3) by simp
qed

lemma reduce_inv_ReduceNoise_output:
  assumes inv: "reduce_inv w"
  shows "reduce_inv (snd (ReduceNoise_output out w))"
  using reduce_inv_parts(1,2) [OF inv] same_config_ReduceNoise_output
proof (rule reduce_inv_transfer)
  note sized = Worker_sized_parts [OF reduce_inv_parts(1) [OF inv]]
  note red = reducing_parts [OF reduce_inv_parts(2) [OF inv]]
  note rng = reduce_inv_parts(3) [OF inv]
  let ?t = "sub_unsigned (mHistoryLen w) 1"
  let ?g = "mGains (mQueue w ! ?t)"
  have "1 \<le> mHistoryLen w" using sized(5,6) by simp
  then have t: "?t = mHistoryLen w - 1" using sized(7) by (rule sub_unsigned_small)
  have tmem: "mQueue w ! ?t \<in> set (mQueue w)" unfolding t using sized(1,6) by simp
  then have tsz: "Record_sized (mSpectrumSize w) (mQueue w ! ?t)" using sized(2) by blast
  then have gl: "length ?g = mSpectrumSize w" by (rule Record_sized_gains)
  have gr: "\<forall>x \<in> set ?g. mNoiseAttenFactor w \<le> x \<and> x \<le> 1"
    using rng tmem unfolding in_range_def by blast
  have sm: "ReduceNoise_smooth w = ApplyFreqSmoothing w ?g"
    using red(1) by (rule ReduceNoise_smooth_reducing)
  show "length (mFreqSmoothingScratch (snd (ReduceNoise_output out w)))
      = length (mFreqSmoothingScratch w)"
    unfolding scratch_ReduceNoise_output sm by (rule ApplyFreqSmoothing_scratch_length)
  show "length (mQueue (snd (ReduceNoise_output out w))) = length (mQueue w)"
    unfolding mQueue_ReduceNoise_output by simp
  have sl: "length (snd (ReduceNoise_smooth w)) = mSpectrumSize w"
    unfolding sm using gl by (simp add: ApplyFreqSmoothing_length)
  have "Record_sized (mSpectrumSize w) ((mQueue w ! ?t)\<lparr>mGains := snd (ReduceNoise_smooth w)\<rparr>)"
    using tsz sl by (rule Record_sized_gains_update)
  with sized(2)
  show "\<forall>r \<in> set (mQueue (snd (ReduceNoise_output out w))). Record_sized (mSpectrumSize w) r"
    unfolding mQueue_ReduceNoise_output by (rule sized_update)
  have "\<forall>x \<in> set (snd (ReduceNoise_smooth w)). mNoiseAttenFactor w \<le> x \<and> x \<le> 1"
    unfolding sm using gl sized(10,4,11) gr red(2) by (rule ApplyFreqSmoothing_range)
  with rng show "in_range (mNoiseAttenFactor w) (mQueue (snd (ReduceNoise_output out w)))"
    unfolding mQueue_ReduceNoise_output by (rule in_range_update_gains)
qed

lemma reduce_inv_ReduceNoise:
  assumes inv: "reduce_inv w"
  shows "reduce_inv (snd (ReduceNoise st out w))"
proof -
  have g: "reduce_inv (w\<lparr>mQueue := ReduceNoise_gains w st\<rparr>)"
    using inv ReduceNoise_gains_inv [OF inv, of st] by (rule reduce_inv_set_queue)
  show ?thesis
  proof (cases "mOutStepCount w \<ge> - to_int (int (sub_unsigned (mStepsPerWindow w) 1))")
    case True
    then have "snd (ReduceNoise st out w)
        = snd (ReduceNoise_output out (w\<lparr>mQueue := ReduceNoise_gains w st\<rparr>))"
      by (simp add: ReduceNoise_def)
    then show ?thesis using reduce_inv_ReduceNoise_output [OF g] by simp
  next
    case False
    then have "snd (ReduceNoise st out w) = w\<lparr>mQueue := ReduceNoise_gains w st\<rparr>"
      by (simp add: ReduceNoise_def)
    then show ?thesis using g by simp
  qed
qed

lemma reduce_inv_rotated:
  assumes inv: "reduce_inv w" and cfg: "same_config w' w"
    and sc: "mFreqSmoothingScratch w' = mFreqSmoothingScratch w"
    and q: "mQueue w' = rotate n (mQueue w)"
  shows "reduce_inv w'"
  using reduce_inv_parts(1,2) [OF inv] cfg
proof (rule reduce_inv_transfer)
  show "length (mFreqSmoothingScratch w') = length (mFreqSmoothingScratch w)" using sc by simp
  show "length (mQueue w') = length (mQueue w)" using q by simp
  show "\<forall>r \<in> set (mQueue w'). Record_sized (mSpectrumSize w) r"
    using Worker_sized_parts(2) [OF reduce_inv_parts(1) [OF inv]] q by simp
  show "in_range (mNoiseAttenFactor w) (mQueue w')"
    using reduce_inv_parts(3) [OF inv] q by (simp add: in_range_def)
qed

lemma reduce_inv_RotateHistoryWindows:
  "reduce_inv w \<Longrightarrow> reduce_inv (RotateHistoryWindows w)"
  by (rule reduce_inv_rotated [OF _ same_config_RotateHistoryWindows])
     (simp_all add: scratch_other_ops RotateHistoryWindows_def)

lemma reduce_inv_ProcessSamples_step:
  "reduce_inv w \<Longrightarrow> reduce_inv (ProcessSamples_step w)"
  by (rule reduce_inv_rotated [OF _ same_config_ProcessSamples_step])
     (simp_all add: scratch_other_ops mQueue_ProcessSamples_step)

lemma reduce_inv_ProcessSamples_window:
  assumes "reduce_inv w"
  shows "reduce_inv (snd (snd (ProcessSamples_window (st, out, w))))"
  unfolding ProcessSamples_window_worker
  using assms
  by (simp add: reduce_inv_ProcessSamples_step reduce_inv_ReduceNoise
      reduce_inv_FillFirstHistoryWindow)

lemma reduce_inv_buffers:
  "reduce_inv (w\<lparr>mInWaveBuffer := b, mInWavePos := p\<rparr>) = reduce_inv w"
  by (simp add: reduce_inv_def Worker_sized_def reducing_def gains_in_range_def)

lemma ProcessSamples_invariant:
  assumes run: "ProcessSamples state len buffer = Some state'"
    and window: "\<And>st out w. I w \<Longrightarrow> I (snd (snd (ProcessSamples_window (st, out, w))))"
    and buffers: "\<And>w b p. I (w\<lparr>mInWaveBuffer := b, mInWavePos := p\<rparr>) = I w"
  shows "I (snd (snd state)) \<longrightarrow> I (snd (snd state'))"
proof (rule ProcessSamples.raw_induct
    [where P = "\<lambda>state len buffer state'. I (snd (snd state)) \<longrightarrow> I (snd (snd state'))", OF _ run])
  fix f :: "Statistics \<times> real list \<times> Worker \<Rightarrow> nat \<Rightarrow> real list
       \<Rightarrow> (Statistics \<times> real list \<times> Worker) option"
  fix state len buffer state'
  assume ih: "\<And>state len buffer state'. f state len buffer = Some state' \<Longrightarrow>
      I (snd (snd state)) \<longrightarrow> I (snd (snd state'))"
  assume body: "(case state of
      (statistics, outputTrack, w) \<Rightarrow>
        if len \<noteq> 0 \<and> mOutStepCount w * int (mStepSize w) < mInSampleCount w
        then let avail = min len (sub_size_t (Worker.mWindowSize w) (nat (mInWavePos w mod 2 ^ 64)));
                 pos = nat (mInWavePos w);
                 w1 = w\<lparr>mInWaveBuffer :=
                      map (\<lambda>i. if pos \<le> i \<and> i < pos + avail then buffer ! (i - pos)
                               else mInWaveBuffer w ! i) [0..<length (mInWaveBuffer w)],
                      mInWavePos := to_int (mInWavePos w + int avail)\<rparr>
             in if mInWavePos w1 = to_int (int (Worker.mWindowSize w1))
                then f (ProcessSamples_window (statistics, outputTrack, w1))
                      (len - avail) (drop avail buffer)
                else f (statistics, outputTrack, w1) (len - avail) (drop avail buffer)
        else Some state) = Some state'"
  obtain st out w where state: "state = (st, out, w)" by (cases state) auto
  show "I (snd (snd state)) \<longrightarrow> I (snd (snd state'))"
  proof
    assume inv: "I (snd (snd state))"
    show "I (snd (snd state'))"
    proof (cases "len \<noteq> 0 \<and> mOutStepCount w * int (mStepSize w) < mInSampleCount w")
      case False
      have "Some state = Some state'"
        using body unfolding state by (simp only: prod.case False if_False)
      then show ?thesis using inv by simp
    next
      case True
      let ?avail = "min len (sub_size_t (Worker.mWindowSize w) (nat (mInWavePos w mod 2 ^ 64)))"
      let ?w1 = "w\<lparr>mInWaveBuffer :=
                     map (\<lambda>i. if nat (mInWavePos w) \<le> i \<and> i < nat (mInWavePos w) + ?avail
                               then buffer ! (i - nat (mInWavePos w))
                               else mInWaveBuffer w ! i) [0 ..< length (mInWaveBuffer w)],
                   mInWavePos := to_int (mInWavePos w + int ?avail)\<rparr>"
      have w1: "I ?w1" using inv by (simp add: state buffers)
      show ?thesis
      proof (cases "mInWavePos ?w1 = to_int (int (Worker.mWindowSize ?w1))")
        case win: True
        have "f (ProcessSamples_window (st, out, ?w1)) (len - ?avail) (drop ?avail buffer)
            = Some state'"
          using body True win unfolding state by (simp add: Let_def)
        then have "I (snd (snd (ProcessSamples_window (st, out, ?w1)))) \<longrightarrow> I (snd (snd state'))"
          by (rule ih)
        moreover have "I (snd (snd (ProcessSamples_window (st, out, ?w1))))"
          using w1 by (rule window)
        ultimately show ?thesis by simp
      next
        case nowin: False
        have "f (st, out, ?w1) (len - ?avail) (drop ?avail buffer) = Some state'"
          using body True nowin unfolding state by (simp add: Let_def)
        then have "I (snd (snd (st, out, ?w1))) \<longrightarrow> I (snd (snd state'))"
          by (rule ih)
        then show ?thesis using w1 by simp
      qed
    qed
  qed
qed

lemma reduce_inv_ProcessSamples:
  assumes "ProcessSamples (st, out, w) len buffer = Some (st', out', w')" and "reduce_inv w"
  shows "reduce_inv w'"
  using ProcessSamples_invariant [where I = reduce_inv, OF assms(1)
      reduce_inv_ProcessSamples_window reduce_inv_buffers] assms(2)
  by simp

lemma WindowSize_bounds:
  assumes "0 \<le> mWindowSizeChoice s" "3 + mWindowSizeChoice s < 32"
  shows "8 \<le> WindowSize s" and "WindowSize s \<le> 2 ^ 31"
proof -
  have W: "WindowSize s = 2 ^ nat (3 + mWindowSizeChoice s)"
    using assms by (simp add: WindowSize_def shl1u_pow)
  have "3 \<le> nat (3 + mWindowSizeChoice s)" using assms(1) by simp
  then have "(2::nat) ^ 3 \<le> 2 ^ nat (3 + mWindowSizeChoice s)"
    by (intro power_increasing) simp_all
  then show "8 \<le> WindowSize s" unfolding W by simp
  have "nat (3 + mWindowSizeChoice s) \<le> 31" using assms by simp
  then have "(2::nat) ^ nat (3 + mWindowSizeChoice s) \<le> 2 ^ 31"
    by (intro power_increasing) simp_all
  then show "WindowSize s \<le> 2 ^ 31" unfolding W .
qed

lemma Worker_Worker_sized:
  assumes W: "0 \<le> mWindowSizeChoice s" "3 + mWindowSizeChoice s < 32"
    and S: "0 \<le> 1 + mStepsPerWindowChoice s" "1 + mStepsPerWindowChoice s < 32"
    and mode: "\<not> Settings.mDoProfile s" "Settings.mMethod s \<noteq> DM_OLD_METHOD"
    and B: "0 \<le> mFreqSmoothingBands s" "mFreqSmoothingBands s < 2 ^ 31"
  shows "Worker_sized (Worker_Worker s rate fft)"
proof -
  note Wb = WindowSize_bounds [OF W]
  note Sb = StepsPerWindow_bounds [OF S]
  have N: "ctor_mNWindowsToExamine s rate = 1 + StepsPerWindow s"
    using S mode(2) by (rule ctor_mNWindowsToExamine_new)
  have c1: "1 \<le> ctor_mCenter s rate" using Sb(1) by (simp add: ctor_mCenter_def N)
  have "ctor_mCenter s rate < ctor_mNWindowsToExamine s rate"
    using Sb(1) by (simp add: ctor_mCenter_def N)
  then have c2: "ctor_mCenter s rate < ctor_mHistoryLen s rate"
    using mode(1) by (simp add: ctor_mHistoryLen_def)
  have "(ctor_mCenter s rate + nAttackBlocks s rate) mod 2 ^ 32 < 2 ^ 32" by simp
  moreover have "ctor_mNWindowsToExamine s rate < 2 ^ 32" using Sb(2) by (simp add: N)
  ultimately have L: "ctor_mHistoryLen s rate < 2 ^ 32"
    using mode(1) by (simp add: ctor_mHistoryLen_def)
  have sp: "2 \<le> 1 + WindowSize s div 2" "1 + WindowSize s div 2 < 2 ^ 31"
    using Wb by simp_all
  have fl: "0 \<le> \<lfloor>mFreqSmoothingBands s\<rfloor>" "\<lfloor>mFreqSmoothingBands s\<rfloor> < 2 ^ 31"
    using B by (simp_all add: floor_less_iff)
  then have "\<lfloor>mFreqSmoothingBands s\<rfloor> < 2 ^ 64" by simp
  then have "\<lfloor>mFreqSmoothingBands s\<rfloor> mod 2 ^ 64 = \<lfloor>mFreqSmoothingBands s\<rfloor>"
    using fl(1) by simp
  moreover have "nat \<lfloor>mFreqSmoothingBands s\<rfloor> < 2 ^ 31" using fl by (simp add: nat_less_iff)
  ultimately have bins: "to_size_t (cast_int (mFreqSmoothingBands s)) < 2 ^ 31"
    using B(1) unfolding to_size_t_def cast_int_def by simp
  show ?thesis
    unfolding Worker_sized_def Worker_Worker_def
    using c1 c2 L sp bins by (simp add: Record_sized_Record_Record)
qed

lemma Worker_Worker_reducing:
  assumes "Settings.mNoiseReductionChoice s \<noteq> NRC_ISOLATE_NOISE"
    and "mNoiseAttenFactor (Worker_Worker s rate fft) \<le> 1"
  shows "reducing (Worker_Worker s rate fft)"
proof -
  have att: "DB_TO_LINEAR (noiseGain s) \<le> 1" using assms(2) by (simp add: Worker_Worker_def)
  then have g: "noiseGain s \<le> 0" by (simp add: DB_TO_LINEAR_le_1_iff)
  have "noiseGain s / real n \<le> 0" for n using g by (simp add: divide_nonpos_nonneg)
  then have "DB_TO_LINEAR (noiseGain s / real n) \<le> 1" for n by (rule DB_TO_LINEAR_le_1)
  then show ?thesis
    unfolding reducing_def Worker_Worker_def using assms(1) att by (simp add: DB_TO_LINEAR_pos)
qed

lemma reduce_inv_classify:
  assumes inv: "reduce_inv w"
  shows "reduce_inv (w\<lparr>mQueue := (mQueue w)[mCenter w := (mQueue w ! mCenter w)
           \<lparr>mGains := ReduceNoise_classify w st (mGains (mQueue w ! mCenter w))\<rparr>]\<rparr>)"
proof (rule reduce_inv_set_queue [OF inv])
  note sized = Worker_sized_parts [OF reduce_inv_parts(1) [OF inv]]
  note red = reducing_parts [OF reduce_inv_parts(2) [OF inv]]
  note rng = reduce_inv_parts(3) [OF inv]
  let ?c = "mCenter w" and ?q = "mQueue w" and ?lo = "mNoiseAttenFactor w"
  let ?C = "ReduceNoise_classify w st (mGains (?q ! ?c))"
  have cmem: "?q ! ?c \<in> set ?q" using sized(1,6) by simp
  then have cr: "\<forall>g \<in> set (mGains (?q ! ?c)). ?lo \<le> g \<and> g \<le> 1"
    using rng unfolding in_range_def by blast
  have csz: "Record_sized (mSpectrumSize w) (?q ! ?c)" using sized(2) cmem by blast
  have C: "length ?C = length (mGains (?q ! ?c)) \<and> (\<forall>g \<in> set ?C. ?lo \<le> g \<and> g \<le> 1)"
    using cr red(3) red(1) by (rule ReduceNoise_classify_range)
  show "length (?q[?c := (?q ! ?c)\<lparr>mGains := ?C\<rparr>]) = mHistoryLen w" using sized(1) by simp
  have "length ?C = mSpectrumSize w" using C csz by (simp add: Record_sized_def)
  with csz have "Record_sized (mSpectrumSize w) ((?q ! ?c)\<lparr>mGains := ?C\<rparr>)"
    by (rule Record_sized_gains_update)
  with sized(2) show "\<forall>r \<in> set (?q[?c := (?q ! ?c)\<lparr>mGains := ?C\<rparr>]). Record_sized (mSpectrumSize w) r"
    by (rule sized_update)
  from C have "\<forall>g \<in> set ?C. ?lo \<le> g \<and> g \<le> 1" by simp
  with rng show "in_range ?lo (?q[?c := (?q ! ?c)\<lparr>mGains := ?C\<rparr>])"
    by (rule in_range_update_gains)
qed

lemma reduce_inv_attack:
  assumes inv: "reduce_inv w"
  shows "reduce_inv (w\<lparr>mQueue := ReduceNoise_attack w (mQueue w)\<rparr>)"
proof (rule reduce_inv_set_queue [OF inv])
  note sized = Worker_sized_parts [OF reduce_inv_parts(1) [OF inv]]
  note red = reducing_parts [OF reduce_inv_parts(2) [OF inv]]
  note rng = reduce_inv_parts(3) [OF inv]
  have g: "\<forall>r \<in> set (mQueue w). length (mGains r) = mSpectrumSize w"
    using sized(2) by (rule sized_gains)
  note a = ReduceNoise_attack_bands [OF g sized(1) le_refl, folded ReduceNoise_attack_def]
  show "length (ReduceNoise_attack w (mQueue w)) = mHistoryLen w" using a sized(1) by simp
  have am: "map mSpectrums (ReduceNoise_attack w (mQueue w)) = map mSpectrums (mQueue w)"
      "map mRealFFTs (ReduceNoise_attack w (mQueue w)) = map mRealFFTs (mQueue w)"
      "map mImagFFTs (ReduceNoise_attack w (mQueue w)) = map mImagFFTs (mQueue w)"
      "map (\<lambda>r. length (mGains r)) (ReduceNoise_attack w (mQueue w))
         = map (\<lambda>r. length (mGains r)) (mQueue w)"
    using a by simp_all
  show "\<forall>r \<in> set (ReduceNoise_attack w (mQueue w)). Record_sized (mSpectrumSize w) r"
    using sized(2) am by (rule sized_from_maps)
  show "in_range (mNoiseAttenFactor w) (ReduceNoise_attack w (mQueue w))"
    using rng sized(1) g red(2,3,4) by (rule ReduceNoise_attack_in_range)
qed

lemma reduce_inv_release:
  assumes inv: "reduce_inv w"
  shows "reduce_inv (w\<lparr>mQueue := ReduceNoise_release w (mQueue w)\<rparr>)"
proof (rule reduce_inv_set_queue [OF inv])
  note sized = Worker_sized_parts [OF reduce_inv_parts(1) [OF inv]]
  note red = reducing_parts [OF reduce_inv_parts(2) [OF inv]]
  note rng = reduce_inv_parts(3) [OF inv]
  have g: "\<forall>r \<in> set (mQueue w). length (mGains r) = mSpectrumSize w"
    using sized(2) by (rule sized_gains)
  have rm: "length (ReduceNoise_release w (mQueue w)) = length (mQueue w)"
      "map mSpectrums (ReduceNoise_release w (mQueue w)) = map mSpectrums (mQueue w)"
      "map mRealFFTs (ReduceNoise_release w (mQueue w)) = map mRealFFTs (mQueue w)"
      "map mImagFFTs (ReduceNoise_release w (mQueue w)) = map mImagFFTs (mQueue w)"
      "map (\<lambda>r. length (mGains r)) (ReduceNoise_release w (mQueue w))
         = map (\<lambda>r. length (mGains r)) (mQueue w)"
    using ReduceNoise_release_other_fields [of w "mQueue w"] by simp_all
  show "length (ReduceNoise_release w (mQueue w)) = mHistoryLen w" using rm(1) sized(1) by simp
  show "\<forall>r \<in> set (ReduceNoise_release w (mQueue w)). Record_sized (mSpectrumSize w) r"
    using sized(2) rm(2-5) by (rule sized_from_maps)
  have c: "mCenter w < length (mQueue w)" "length (mQueue w) < 2 ^ 32"
    using sized(1,6,7) by simp_all
  show "in_range (mNoiseAttenFactor w) (ReduceNoise_release w (mQueue w))"
    using rng sized(5) c g red(2,3,5) by (rule ReduceNoise_release_in_range)
qed

lemma reduce_inv_gains:
  assumes inv: "reduce_inv w"
  shows "\<forall>record \<in> set (mQueue w). length (mGains record) = mSpectrumSize w \<and>
           (\<forall>b < mSpectrumSize w.
              mNoiseAttenFactor w \<le> mGains record ! b \<and> mGains record ! b \<le> 1)"
proof
  fix rc assume r: "rc \<in> set (mQueue w)"
  have l: "length (mGains rc) = mSpectrumSize w"
    using Worker_sized_parts(2) [OF reduce_inv_parts(1) [OF inv]] r by (simp add: Record_sized_def)
  have "\<forall>g \<in> set (mGains rc). mNoiseAttenFactor w \<le> g \<and> g \<le> 1"
    using reduce_inv_parts(3) [OF inv] r unfolding in_range_def by blast
  then have "\<forall>b < mSpectrumSize w. mNoiseAttenFactor w \<le> mGains rc ! b \<and> mGains rc ! b \<le> 1"
    using l by (simp add: all_set_conv_all_nth)
  with l show "length (mGains rc) = mSpectrumSize w \<and>
           (\<forall>b < mSpectrumSize w.
              mNoiseAttenFactor w \<le> mGains rc ! b \<and> mGains rc ! b \<le> 1)" by simp
qed

text \<open>
  Claim C1. For a worker that does not isolate the noise and whose attenuation factor is
  in \<open>(0, 1]\<close>: the constructor followed by \<^verbatim>\<open>StartNewTrack\<close> (which fills the gains with
  the attenuation factor) establishes the invariant, given settings whose shifts are
  defined, a new method, a number of smoothing bands that fits an \<^verbatim>\<open>int\<close> and an
  attenuation factor of at most 1; the invariant is kept by \<^verbatim>\<open>StartNewTrack\<close>, by
  \<^verbatim>\<open>FillFirstHistoryWindow\<close>, by each block of \<^verbatim>\<open>ReduceNoise\<close> (the classifier's raise
  of the centre record, the attack, the release, and the output of the last record with
  its frequency smoothing), by \<^verbatim>\<open>ReduceNoise\<close> as a whole, by the rotation of the queue,
  by the processing of one window and by every run of \<^verbatim>\<open>ProcessSamples\<close> that returns;
  and under the invariant every gain of every band of every record of the queue lies
  between the attenuation factor and 1.
\<close>

theorem gains_between_attenuation_and_one:
  "(0 \<le> mWindowSizeChoice s \<and> 3 + mWindowSizeChoice s < 32
      \<and> 0 \<le> 1 + mStepsPerWindowChoice s \<and> 1 + mStepsPerWindowChoice s < 32
      \<and> \<not> Settings.mDoProfile s \<and> Settings.mMethod s \<noteq> DM_OLD_METHOD
      \<and> 0 \<le> mFreqSmoothingBands s \<and> mFreqSmoothingBands s < 2 ^ 31
      \<and> Settings.mNoiseReductionChoice s \<noteq> NRC_ISOLATE_NOISE
      \<and> mNoiseAttenFactor (Worker_Worker s rate fft) \<le> 1
    \<longrightarrow> reduce_inv (StartNewTrack (Worker_Worker s rate fft)))
   \<and> (reduce_inv w \<longrightarrow>
        reduce_inv (StartNewTrack w)
        \<and> reduce_inv (FillFirstHistoryWindow w)
        \<and> reduce_inv (w\<lparr>mQueue := (mQueue w)[mCenter w := (mQueue w ! mCenter w)
              \<lparr>mGains := ReduceNoise_classify w st (mGains (mQueue w ! mCenter w))\<rparr>]\<rparr>)
        \<and> reduce_inv (w\<lparr>mQueue := ReduceNoise_attack w (mQueue w)\<rparr>)
        \<and> reduce_inv (w\<lparr>mQueue := ReduceNoise_release w (mQueue w)\<rparr>)
        \<and> reduce_inv (snd (ReduceNoise_output out w))
        \<and> reduce_inv (snd (ReduceNoise st out w))
        \<and> reduce_inv (RotateHistoryWindows w)
        \<and> reduce_inv (snd (snd (ProcessSamples_window (st, out, w))))
        \<and> (ProcessSamples (st, out, w) len buffer = Some (st', out', w') \<longrightarrow> reduce_inv w'))
   \<and> (reduce_inv w \<longrightarrow>
        Worker.mNoiseReductionChoice w \<noteq> NRC_ISOLATE_NOISE
        \<and> 0 < mNoiseAttenFactor w \<and> mNoiseAttenFactor w \<le> 1
        \<and> (\<forall>record \<in> set (mQueue w). length (mGains record) = mSpectrumSize w \<and>
             (\<forall>b < mSpectrumSize w.
                mNoiseAttenFactor w \<le> mGains record ! b \<and> mGains record ! b \<le> 1)))"
proof -
  have start: "0 \<le> mWindowSizeChoice s \<and> 3 + mWindowSizeChoice s < 32
      \<and> 0 \<le> 1 + mStepsPerWindowChoice s \<and> 1 + mStepsPerWindowChoice s < 32
      \<and> \<not> Settings.mDoProfile s \<and> Settings.mMethod s \<noteq> DM_OLD_METHOD
      \<and> 0 \<le> mFreqSmoothingBands s \<and> mFreqSmoothingBands s < 2 ^ 31
      \<and> Settings.mNoiseReductionChoice s \<noteq> NRC_ISOLATE_NOISE
      \<and> mNoiseAttenFactor (Worker_Worker s rate fft) \<le> 1
    \<longrightarrow> reduce_inv (StartNewTrack (Worker_Worker s rate fft))"
  proof (intro impI, elim conjE)
    assume a: "0 \<le> mWindowSizeChoice s" "3 + mWindowSizeChoice s < 32"
      "0 \<le> 1 + mStepsPerWindowChoice s" "1 + mStepsPerWindowChoice s < 32"
      "\<not> Settings.mDoProfile s" "Settings.mMethod s \<noteq> DM_OLD_METHOD"
      "0 \<le> mFreqSmoothingBands s" "mFreqSmoothingBands s < 2 ^ 31"
      "Settings.mNoiseReductionChoice s \<noteq> NRC_ISOLATE_NOISE"
      "mNoiseAttenFactor (Worker_Worker s rate fft) \<le> 1"
    have "Worker_sized (Worker_Worker s rate fft)" using a(1-8) by (rule Worker_Worker_sized)
    moreover have "reducing (Worker_Worker s rate fft)" using a(9,10) by (rule Worker_Worker_reducing)
    ultimately show "reduce_inv (StartNewTrack (Worker_Worker s rate fft))"
      by (rule reduce_inv_StartNewTrack)
  qed
  have ops: "reduce_inv w \<longrightarrow>
        reduce_inv (StartNewTrack w)
        \<and> reduce_inv (FillFirstHistoryWindow w)
        \<and> reduce_inv (w\<lparr>mQueue := (mQueue w)[mCenter w := (mQueue w ! mCenter w)
              \<lparr>mGains := ReduceNoise_classify w st (mGains (mQueue w ! mCenter w))\<rparr>]\<rparr>)
        \<and> reduce_inv (w\<lparr>mQueue := ReduceNoise_attack w (mQueue w)\<rparr>)
        \<and> reduce_inv (w\<lparr>mQueue := ReduceNoise_release w (mQueue w)\<rparr>)
        \<and> reduce_inv (snd (ReduceNoise_output out w))
        \<and> reduce_inv (snd (ReduceNoise st out w))
        \<and> reduce_inv (RotateHistoryWindows w)
        \<and> reduce_inv (snd (snd (ProcessSamples_window (st, out, w))))
        \<and> (ProcessSamples (st, out, w) len buffer = Some (st', out', w') \<longrightarrow> reduce_inv w')"
  proof
    assume inv: "reduce_inv w"
    have run: "ProcessSamples (st, out, w) len buffer = Some (st', out', w') \<longrightarrow> reduce_inv w'"
      using inv reduce_inv_ProcessSamples by blast
    have 1: "reduce_inv (StartNewTrack w)"
      using reduce_inv_parts(1,2) [OF inv] by (rule reduce_inv_StartNewTrack)
    note 2 = reduce_inv_FillFirstHistoryWindow [OF inv]
    note 3 = reduce_inv_classify [OF inv, of st]
    note 4 = reduce_inv_attack [OF inv]
    note 5 = reduce_inv_release [OF inv]
    note 6 = reduce_inv_ReduceNoise_output [OF inv, of out]
    note 7 = reduce_inv_ReduceNoise [OF inv, of st out]
    note 8 = reduce_inv_RotateHistoryWindows [OF inv]
    note 9 = reduce_inv_ProcessSamples_window [OF inv, of st out]
    from 1 2 3 4 5 6 7 8 9 run
    show "reduce_inv (StartNewTrack w)
        \<and> reduce_inv (FillFirstHistoryWindow w)
        \<and> reduce_inv (w\<lparr>mQueue := (mQueue w)[mCenter w := (mQueue w ! mCenter w)
              \<lparr>mGains := ReduceNoise_classify w st (mGains (mQueue w ! mCenter w))\<rparr>]\<rparr>)
        \<and> reduce_inv (w\<lparr>mQueue := ReduceNoise_attack w (mQueue w)\<rparr>)
        \<and> reduce_inv (w\<lparr>mQueue := ReduceNoise_release w (mQueue w)\<rparr>)
        \<and> reduce_inv (snd (ReduceNoise_output out w))
        \<and> reduce_inv (snd (ReduceNoise st out w))
        \<and> reduce_inv (RotateHistoryWindows w)
        \<and> reduce_inv (snd (snd (ProcessSamples_window (st, out, w))))
        \<and> (ProcessSamples (st, out, w) len buffer = Some (st', out', w') \<longrightarrow> reduce_inv w')"
      by (intro conjI)
  qed
  have meaning: "reduce_inv w \<longrightarrow>
        Worker.mNoiseReductionChoice w \<noteq> NRC_ISOLATE_NOISE
        \<and> 0 < mNoiseAttenFactor w \<and> mNoiseAttenFactor w \<le> 1
        \<and> (\<forall>record \<in> set (mQueue w). length (mGains record) = mSpectrumSize w \<and>
             (\<forall>b < mSpectrumSize w.
                mNoiseAttenFactor w \<le> mGains record ! b \<and> mGains record ! b \<le> 1))"
  proof
    assume inv: "reduce_inv w"
    note red = reducing_parts [OF reduce_inv_parts(2) [OF inv]]
    from red(1,2,3) reduce_inv_gains [OF inv]
    show "Worker.mNoiseReductionChoice w \<noteq> NRC_ISOLATE_NOISE
        \<and> 0 < mNoiseAttenFactor w \<and> mNoiseAttenFactor w \<le> 1
        \<and> (\<forall>record \<in> set (mQueue w). length (mGains record) = mSpectrumSize w \<and>
             (\<forall>b < mSpectrumSize w.
                mNoiseAttenFactor w \<le> mGains record ! b \<and> mGains record ! b \<le> 1))"
      by (intro conjI)
  qed
  from start ops meaning show ?thesis by (intro conjI)
qed

theorem gains_between_attenuation_and_one_witness:
  "\<exists>st' out' w'.
     ProcessSamples (Statistics_Statistics 5 44100 WT_RECTANGULAR_HANN, [], started_worker)
       4 [1, 1, 1, 1] = Some (st', out', w')
     \<and> 0 < mNoiseAttenFactor w' \<and> mNoiseAttenFactor w' \<le> 1
     \<and> (\<forall>record \<in> set (mQueue w'). \<forall>b < mSpectrumSize w'.
            mNoiseAttenFactor w' \<le> mGains record ! b \<and> mGains record ! b \<le> 1)"
proof -
  let ?w0 = "Worker_Worker small_settings 44100 example_fft"
  let ?st = "Statistics_Statistics 5 44100 WT_RECTANGULAR_HANN"
  have atten: "mNoiseAttenFactor ?w0 \<le> 1"
    by (simp add: Worker_Worker_def noiseGain_def small_fields DB_TO_LINEAR_le_1)
  have settings: "0 \<le> mWindowSizeChoice small_settings \<and> 3 + mWindowSizeChoice small_settings < 32
      \<and> 0 \<le> 1 + mStepsPerWindowChoice small_settings
      \<and> 1 + mStepsPerWindowChoice small_settings < 32
      \<and> \<not> Settings.mDoProfile small_settings \<and> Settings.mMethod small_settings \<noteq> DM_OLD_METHOD
      \<and> 0 \<le> mFreqSmoothingBands small_settings \<and> mFreqSmoothingBands small_settings < 2 ^ 31
      \<and> Settings.mNoiseReductionChoice small_settings \<noteq> NRC_ISOLATE_NOISE"
    by (simp add: small_fields enum_defs)
  have "reduce_inv (StartNewTrack ?w0)"
    using gains_between_attenuation_and_one [where s = small_settings and rate = 44100
        and fft = example_fft] settings atten by blast
  then have inv: "reduce_inv started_worker"
    by (simp add: started_worker_def reduce_inv_def Worker_sized_def reducing_def
        gains_in_range_def)
  obtain st' out' w' where
    run: "ProcessSamples (?st, [], started_worker) 4 [1, 1, 1, 1] = Some (st', out', w')"
    using started_worker_run [of ?st "[]"]
    by (cases "ProcessSamples (?st, [], started_worker) 4 [1, 1, 1, 1]") auto
  have inv': "reduce_inv w'"
    using gains_between_attenuation_and_one [where w = started_worker and st = ?st and out = "[]"
        and len = 4 and buffer = "[1, 1, 1, 1]" and st' = st' and out' = out' and w' = w']
      inv run by blast
  have "0 < mNoiseAttenFactor w' \<and> mNoiseAttenFactor w' \<le> 1
     \<and> (\<forall>record \<in> set (mQueue w'). \<forall>b < mSpectrumSize w'.
            mNoiseAttenFactor w' \<le> mGains record ! b \<and> mGains record ! b \<le> 1)"
    using gains_between_attenuation_and_one [where w = w'] inv' by blast
  with run show ?thesis by blast
qed

end
